theory Spec2Isabelle
  imports Main "HOL-Library.Sublist"
begin

section \<open>Conventions of the embedding\<close>

text \<open>
  The program is a browser application written in TypeScript. Its pure parts are embedded
  as HOL functions, its effectful parts as functions over an explicit state that also
  records the sequence of observable actions.

  \<^item> JavaScript strings are \<^typ>\<open>string\<close>, a list of character codes below 256.
  \<^item> A plain object or a \<open>Map\<close> used as a dictionary is a map \<open>string \<rightharpoonup> 'v\<close> of
    its own properties.
  \<^item> \<open>undefined\<close> is \<open>None\<close>; a thrown value or a rejected promise is \<open>Inl\<close>.
  \<^item> Message texts of the user interface that are written in Vietnamese in the source
    are constructors of a datatype, one per literal of the source.
\<close>

definition DQ :: char where "DQ = CHR 0x22"
definition LF :: char where "LF = CHR 0x0A"
definition CR :: char where "CR = CHR 0x0D"
definition COMMA :: char where "COMMA = CHR 0x2C"

section \<open>Plain objects used as dictionaries\<close>

text \<open>
  The audio-URL mapping and the transcript cache are plain objects. Such an object is the
  map of its own properties. Reading \<open>obj[k]\<close> finds the own property \<open>k\<close>, or else the
  member of that name that every plain object inherits from \<open>Object.prototype\<close> (a function,
  or under \<open>__proto__\<close> the prototype itself), or else \<open>undefined\<close>.
\<close>

datatype 'v looked_up = Missing | Own 'v | Inherited

definition object_prototype_names :: "string list" where
  "object_prototype_names =
     [''constructor'', ''__defineGetter__'', ''__defineSetter__'', ''hasOwnProperty'',
      ''__lookupGetter__'', ''__lookupSetter__'', ''isPrototypeOf'', ''propertyIsEnumerable'',
      ''toString'', ''valueOf'', ''__proto__'', ''toLocaleString'']"

definition js_get :: "(string \<rightharpoonup> 'v) \<Rightarrow> string \<Rightarrow> 'v looked_up" where
  "js_get obj k =
     (case obj k of
        Some v \<Rightarrow> Own v
      | None \<Rightarrow> if k \<in> set object_prototype_names then Inherited else Missing)"

text \<open>
  The assignment \<open>obj[k] = v\<close> of a string. Under the name \<open>__proto__\<close> an object without
  an own property of that name passes the value to the inherited setter, which ignores a
  string; every other assignment creates or overwrites the own property. The object
  literal \<open>{...prev, [k]: v}\<close> always defines the own property, and is the map update.
\<close>

definition js_set :: "(string \<rightharpoonup> 'v) \<Rightarrow> string \<Rightarrow> 'v \<Rightarrow> (string \<rightharpoonup> 'v)" where
  "js_set obj k v = (if k = ''__proto__'' \<and> obj k = None then obj else obj(k \<mapsto> v))"

text \<open>
  Truthiness of what a lookup of a string-valued dictionary gives: \<open>undefined\<close> and the
  empty string are falsy, every other string and every inherited member is truthy.
\<close>

fun truthy_value :: "string looked_up \<Rightarrow> bool" where
  "truthy_value Missing = False"
| "truthy_value (Own s) = (s \<noteq> [])"
| "truthy_value Inherited = True"

text \<open>
  The text \<open>String\<close> gives the inherited member of a name: the prototype object under
  \<open>__proto__\<close>, and otherwise a native function, printed as V8 prints it.
\<close>

definition inherited_text :: "string \<Rightarrow> string" where
  "inherited_text k =
     (if k = ''__proto__'' then ''[object Object]''
      else if k = ''constructor'' then ''function Object() { [native code] }''
      else ''function '' @ k @ ''() { [native code] }'')"

section \<open>The CSV sanitizer (utils/csvHelper.ts)\<close>

text \<open>
  The argument of \<open>sanitizeCsvField\<close> is typed \<open>any\<close>: it is either \<open>null\<close> or
  \<open>undefined\<close>, or a value that \<open>String\<close> turns into a string. The callers pass the string
  fields of a video record, for which \<open>String\<close> is the identity.
\<close>

datatype js_field = Nullish | Str string

text \<open>The test \<open>/[",\n]/.test(stringField)\<close>.\<close>

definition needs_quoting :: "string \<Rightarrow> bool" where
  "needs_quoting s = list_ex (\<lambda>c. c = DQ \<or> c = COMMA \<or> c = LF) s"

text \<open>
  The characters that break a line, in the words of the specification: the line feed
  and the carriage return (the line terminators of JavaScript below code 256).
\<close>

definition is_line_break :: "char \<Rightarrow> bool" where
  "is_line_break c = (c = LF \<or> c = CR)"

text \<open>The replacement \<open>stringField.replace(/"/g, '""')\<close>.\<close>

definition double_quotes :: "string \<Rightarrow> string" where
  "double_quotes s = concat (map (\<lambda>c. if c = DQ then [DQ, DQ] else [c]) s)"

fun sanitizeCsvField :: "js_field \<Rightarrow> string" where
  "sanitizeCsvField Nullish = [DQ, DQ]"
| "sanitizeCsvField (Str stringField) =
     (if needs_quoting stringField then DQ # double_quotes stringField @ [DQ]
      else stringField)"

text \<open>\<open>Array.prototype.join\<close> with a one-character separator, on strings.\<close>

fun join :: "char \<Rightarrow> string list \<Rightarrow> string" where
  "join sep [] = []"
| "join sep [x] = x"
| "join sep (x # y # ys) = x @ sep # join sep (y # ys)"

subsection \<open>A reader of comma-separated tables\<close>

text \<open>
  The reader against which the sanitizer is checked. It is not part of the program: it is
  the usual reader of the format the exporter writes (RFC 4180 with a line feed between
  records). A field that starts with a double quote runs to the next double quote that is
  not doubled, and a doubled double quote inside it stands for one; any other field runs
  to the next comma or line feed. The reader keeps the field and the record it is
  building, and returns the records of the table.
\<close>

datatype reader_state = FieldStart | Unquoted | Quoted | QuoteSeen

fun csv_read :: "reader_state \<Rightarrow> string \<Rightarrow> string list \<Rightarrow> string \<Rightarrow> string list list" where
  "csv_read st f r [] = [r @ [f]]"
| "csv_read Quoted f r (c # cs) =
     (if c = DQ then csv_read QuoteSeen f r cs else csv_read Quoted (f @ [c]) r cs)"
| "csv_read QuoteSeen f r (c # cs) =
     (if c = DQ then csv_read Quoted (f @ [DQ]) r cs
      else if c = COMMA then csv_read FieldStart [] (r @ [f]) cs
      else if c = LF then (r @ [f]) # csv_read FieldStart [] [] cs
      else csv_read Unquoted (f @ [c]) r cs)"
| "csv_read FieldStart f r (c # cs) =
     (if c = DQ then csv_read Quoted f r cs
      else if c = COMMA then csv_read FieldStart [] (r @ [f]) cs
      else if c = LF then (r @ [f]) # csv_read FieldStart [] [] cs
      else csv_read Unquoted (f @ [c]) r cs)"
| "csv_read Unquoted f r (c # cs) =
     (if c = COMMA then csv_read FieldStart [] (r @ [f]) cs
      else if c = LF then (r @ [f]) # csv_read FieldStart [] [] cs
      else csv_read Unquoted (f @ [c]) r cs)"

definition read_table :: "string \<Rightarrow> string list list" where
  "read_table text = csv_read FieldStart [] [] text"

text \<open>The text the exporter's way of writing gives for a table of string fields.\<close>

definition write_record :: "string list \<Rightarrow> string" where
  "write_record fs = join COMMA (map (\<lambda>x. sanitizeCsvField (Str x)) fs)"

definition write_table :: "string list list \<Rightarrow> string" where
  "write_table rows = join LF (map write_record rows)"

text \<open>
  A reader that ends a record at every line break, as spreadsheet tools do: at a line
  feed, at a carriage return, and once at a carriage return followed by a line feed.
  Apart from that it reads as \<open>csv_read\<close> does.
\<close>

datatype break_reader_state = BStart | BUnquoted | BQuoted | BQuoteSeen | BAfterCR

fun csv_read_breaks :: "break_reader_state \<Rightarrow> string \<Rightarrow> string list \<Rightarrow> string \<Rightarrow> string list list" where
  "csv_read_breaks st f r [] = [r @ [f]]"
| "csv_read_breaks BQuoted f r (c # cs) =
     (if c = DQ then csv_read_breaks BQuoteSeen f r cs else csv_read_breaks BQuoted (f @ [c]) r cs)"
| "csv_read_breaks BQuoteSeen f r (c # cs) =
     (if c = DQ then csv_read_breaks BQuoted (f @ [DQ]) r cs
      else if c = COMMA then csv_read_breaks BStart [] (r @ [f]) cs
      else if c = LF then (r @ [f]) # csv_read_breaks BStart [] [] cs
      else if c = CR then (r @ [f]) # csv_read_breaks BAfterCR [] [] cs
      else csv_read_breaks BUnquoted (f @ [c]) r cs)"
| "csv_read_breaks BAfterCR f r (c # cs) =
     (if c = LF then csv_read_breaks BStart f r cs
      else if c = DQ then csv_read_breaks BQuoted f r cs
      else if c = COMMA then csv_read_breaks BStart [] (r @ [f]) cs
      else if c = CR then (r @ [f]) # csv_read_breaks BAfterCR [] [] cs
      else csv_read_breaks BUnquoted (f @ [c]) r cs)"
| "csv_read_breaks BStart f r (c # cs) =
     (if c = DQ then csv_read_breaks BQuoted f r cs
      else if c = COMMA then csv_read_breaks BStart [] (r @ [f]) cs
      else if c = LF then (r @ [f]) # csv_read_breaks BStart [] [] cs
      else if c = CR then (r @ [f]) # csv_read_breaks BAfterCR [] [] cs
      else csv_read_breaks BUnquoted (f @ [c]) r cs)"
| "csv_read_breaks BUnquoted f r (c # cs) =
     (if c = COMMA then csv_read_breaks BStart [] (r @ [f]) cs
      else if c = LF then (r @ [f]) # csv_read_breaks BStart [] [] cs
      else if c = CR then (r @ [f]) # csv_read_breaks BAfterCR [] [] cs
      else csv_read_breaks BUnquoted (f @ [c]) r cs)"

definition read_table_breaks :: "string \<Rightarrow> string list list" where
  "read_table_breaks s = csv_read_breaks BStart [] [] s"

text \<open>The state of the line-feed reader that a state of this reader stands for.\<close>

fun plain_state :: "break_reader_state \<Rightarrow> reader_state" where
  "plain_state BStart = FieldStart"
| "plain_state BUnquoted = Unquoted"
| "plain_state BQuoted = Quoted"
| "plain_state BQuoteSeen = QuoteSeen"
| "plain_state BAfterCR = FieldStart"

section \<open>The video record (types.ts) and the export (utils/csvHelper.ts)\<close>

text \<open>
  \<open>TikTokVideo\<close>, with the type of JavaScript numbers left open as \<open>'n\<close>. The fields
  \<open>id\<close> and \<open>text\<close> carry a suffix, the other names are those of the source.
\<close>

record author_meta =
  name :: string
  nickName :: string
  avatar :: string

record 'n video_meta =
  duration :: 'n
  height :: 'n
  width :: 'n

record music_meta =
  musicName :: string
  musicAuthor :: string
  musicOriginal :: bool

record 'n TikTokVideo =
  id_field :: string
  webVideoUrl :: string
  text_field :: string
  createTime :: 'n
  createTimeISO :: string
  authorMeta :: author_meta
  diggCount :: 'n
  commentCount :: 'n
  shareCount :: 'n
  playCount :: 'n
  videoMeta :: "'n video_meta"
  musicMeta :: music_meta

type_synonym TranscriptCache = "string \<rightharpoonup> string"

text \<open>
  JavaScript truthiness of a looked-up string: \<open>undefined\<close> and the empty string are
  falsy, every other string is truthy.
\<close>

fun truthy :: "string option \<Rightarrow> bool" where
  "truthy None = False"
| "truthy (Some s) = (s \<noteq> [])"

definition headers :: "string list" where
  "headers =
    [''ID'', ''URL'', ''Timestamp ISO'', ''Author Name'', ''Author Nickname'', ''Author Avatar'',
     ''Description'', ''Likes'', ''Comments'', ''Shares'', ''Plays'', ''Duration (s)'',
     ''Video Height'', ''Video Width'', ''Music Name'', ''Music Author'', ''Original Music'',
     ''Transcript'']"

text \<open>
  \<open>transcripts[video.webVideoUrl] || 'N/A'\<close>, as the text that the sanitizer's
  \<open>String\<close> makes of it: the lookup goes through the prototype chain.
\<close>

definition transcript_or_sentinel :: "TranscriptCache \<Rightarrow> 'n TikTokVideo \<Rightarrow> string" where
  "transcript_or_sentinel transcripts video =
     (case js_get transcripts (webVideoUrl video) of
        Own t \<Rightarrow> if t \<noteq> [] then t else ''N/A''
      | Inherited \<Rightarrow> inherited_text (webVideoUrl video)
      | Missing \<Rightarrow> ''N/A'')"

definition bool_str :: "bool \<Rightarrow> string" where
  "bool_str b = (if b then ''true'' else ''false'')"

text \<open>
  The eighteen elements of the array that \<open>downloadCsv\<close> builds for one video, as \<open>join\<close>
  turns them into strings. \<open>num_str\<close> is the text JavaScript gives a number; the numbers
  and the boolean are not passed through the sanitizer.
\<close>

definition row_fields :: "('n \<Rightarrow> string) \<Rightarrow> TranscriptCache \<Rightarrow> 'n TikTokVideo \<Rightarrow> string list" where
  "row_fields num_str transcripts video =
    [sanitizeCsvField (Str (id_field video)),
     sanitizeCsvField (Str (webVideoUrl video)),
     sanitizeCsvField (Str (createTimeISO video)),
     sanitizeCsvField (Str (name (authorMeta video))),
     sanitizeCsvField (Str (nickName (authorMeta video))),
     sanitizeCsvField (Str (avatar (authorMeta video))),
     sanitizeCsvField (Str (text_field video)),
     num_str (diggCount video),
     num_str (commentCount video),
     num_str (shareCount video),
     num_str (playCount video),
     num_str (duration (videoMeta video)),
     num_str (height (videoMeta video)),
     num_str (width (videoMeta video)),
     sanitizeCsvField (Str (musicName (musicMeta video))),
     sanitizeCsvField (Str (musicAuthor (musicMeta video))),
     bool_str (musicOriginal (musicMeta video)),
     sanitizeCsvField (Str (transcript_or_sentinel transcripts video))]"

text \<open>
  The string handed to the blob is the byte-order mark U+FEFF followed by the table; the
  mark is a constructor here, the table the text after it.
\<close>

datatype csv_string = Bom_then string

text \<open>
  What \<open>downloadCsv\<close> does: it alerts and returns when there is no video, and otherwise
  offers a file of a fixed name for download.
\<close>

datatype export_result = Alert string | Download string csv_string

definition downloadCsv :: "('n \<Rightarrow> string) \<Rightarrow> 'n TikTokVideo list \<Rightarrow> TranscriptCache \<Rightarrow> export_result" where
  "downloadCsv num_str videos transcripts =
     (if length videos = 0 then Alert ''No data to download.''
      else
        let rows = map (\<lambda>video. join COMMA (row_fields num_str transcripts video)) videos;
            csvString = Bom_then (join COMMA headers @ [LF] @ join LF rows)
        in Download ''tiktok_transcripts_full.csv'' csvString)"

text \<open>
  The values a reader is expected to find in the row of a video: the fields of the
  record, the numbers and the boolean as text, and the transcript or the sentinel.
\<close>

definition row_values :: "('n \<Rightarrow> string) \<Rightarrow> TranscriptCache \<Rightarrow> 'n TikTokVideo \<Rightarrow> string list" where
  "row_values num_str transcripts video =
    [id_field video, webVideoUrl video, createTimeISO video,
     name (authorMeta video), nickName (authorMeta video), avatar (authorMeta video),
     text_field video,
     num_str (diggCount video), num_str (commentCount video), num_str (shareCount video),
     num_str (playCount video),
     num_str (duration (videoMeta video)), num_str (height (videoMeta video)),
     num_str (width (videoMeta video)),
     musicName (musicMeta video), musicAuthor (musicMeta video),
     bool_str (musicOriginal (musicMeta video)),
     transcript_or_sentinel transcripts video]"

text \<open>A video and a number rendering used where a property is run on an example.\<close>

definition example_video :: "string \<Rightarrow> string \<Rightarrow> nat TikTokVideo" where
  "example_video i url =
     \<lparr>id_field = i, webVideoUrl = url, text_field = ''clip'', createTime = 0,
      createTimeISO = ''1970-01-01T00:00:00.000Z'',
      authorMeta = \<lparr>name = ''Unknown'', nickName = ''Unknown'', avatar = ''''\<rparr>,
      diggCount = 0, commentCount = 0, shareCount = 0, playCount = 0,
      videoMeta = \<lparr>duration = 0, height = 0, width = 0\<rparr>,
      musicMeta = \<lparr>musicName = ''N/A'', musicAuthor = ''N/A'', musicOriginal = False\<rparr>\<rparr>"

definition zero_str :: "nat \<Rightarrow> string" where
  "zero_str n = ''0''"

text \<open>
  A video whose URL is the name of a member of \<open>Object.prototype\<close>, and whose
  description holds a carriage return.
\<close>

definition odd_video :: "nat TikTokVideo" where
  "odd_video = (example_video ''1'' ''constructor'')\<lparr>text_field := ''a'' @ [CR] @ ''b''\<rparr>"

subsection \<open>Auxiliary notions of the reader proofs\<close>

text \<open>What the reader does once a field is complete, and the texts that complete one.\<close>

definition finish :: "string \<Rightarrow> string list \<Rightarrow> string \<Rightarrow> string list list" where
  "finish f r rest = (case rest of [] \<Rightarrow> [r @ [f]]
     | c # cs \<Rightarrow> if c = COMMA then csv_read FieldStart [] (r @ [f]) cs
                else (r @ [f]) # csv_read FieldStart [] [] cs)"

definition terminated :: "string \<Rightarrow> bool" where
  "terminated rest = (case rest of [] \<Rightarrow> True | c # cs \<Rightarrow> c = COMMA \<or> c = LF)"

section \<open>The item matcher (handleMatch in App.tsx)\<close>

text \<open>
  \<open>String.prototype.trim\<close> removes white space and line terminators at both ends; these
  are the ones among the character codes below 256.
\<close>

definition is_js_space :: "char \<Rightarrow> bool" where
  "is_js_space c = (c = CHR 0x09 \<or> c = CHR 0x0A \<or> c = CHR 0x0B \<or> c = CHR 0x0C \<or> c = CHR 0x0D
     \<or> c = CHR 0x20 \<or> c = CHR 0xA0)"

definition trim :: "string \<Rightarrow> string" where
  "trim s = rev (dropWhile is_js_space (rev (dropWhile is_js_space s)))"

text \<open>\<open>split\<close> at a one-character separator: the empty string gives one empty piece.\<close>

fun split_on :: "char \<Rightarrow> string \<Rightarrow> string list" where
  "split_on sep [] = [[]]"
| "split_on sep (c # cs) =
     (if c = sep then [] # split_on sep cs
      else (case split_on sep cs of w # ws \<Rightarrow> (c # w) # ws | [] \<Rightarrow> [[c]]))"

text \<open>\<open>input.split('\n').map(l => l.trim()).filter(Boolean)\<close>\<close>

definition lines_of :: "string \<Rightarrow> string list" where
  "lines_of input = filter (\<lambda>l. l \<noteq> []) (map trim (split_on LF input))"

text \<open>
  The status line of the matching step. Its texts are Vietnamese in the source: the empty
  initial text, the two error texts (no URL in one of the boxes; the numbers of URLs
  differ), the text that reports \<open>count\<close> matches among the scanned videos, and the text
  that reports that no video matched.
\<close>

datatype match_status =
    Status_none
  | Error_missing_input
  | Error_count_mismatch
  | Matched_of nat nat
  | No_match_found

record match_state =
  matchStatus :: match_status
  matchedCount :: nat
  mp3UrlMap :: "string \<rightharpoonup> string"

text \<open>The loop that fills \<open>userInputMap\<close>: a later line overwrites an earlier one.\<close>

definition userInputMap :: "string list \<Rightarrow> string list \<Rightarrow> (string \<rightharpoonup> string)" where
  "userInputMap videoLines mp3Lines =
     foldl (\<lambda>m i. m(videoLines ! i \<mapsto> mp3Lines ! i)) Map.empty [0..<length videoLines]"

text \<open>
  The body of \<open>videos.forEach\<close>, on the pair of \<open>newMp3UrlMap\<close> and \<open>count\<close>.
  \<open>userInputMap\<close> is a \<open>Map\<close>; \<open>newMp3UrlMap\<close> is a plain object, written by assignment.
\<close>

definition match_video :: "(string \<rightharpoonup> string) \<Rightarrow> (string \<rightharpoonup> string) \<times> nat \<Rightarrow> 'n TikTokVideo
    \<Rightarrow> (string \<rightharpoonup> string) \<times> nat" where
  "match_video inputMap acc video =
     (case inputMap (webVideoUrl video) of
        Some mp3 \<Rightarrow> (js_set (fst acc) (webVideoUrl video) mp3, snd acc + 1)
      | None \<Rightarrow> acc)"

definition handleMatch :: "'n TikTokVideo list \<Rightarrow> string \<Rightarrow> string \<Rightarrow> match_state \<Rightarrow> match_state" where
  "handleMatch videos mp3UrlsInput videoUrlsInput st =
     (let mp3Lines = lines_of mp3UrlsInput;
          videoLines = lines_of videoUrlsInput
      in if length mp3Lines = 0 \<or> length videoLines = 0 then
           st\<lparr>matchStatus := Error_missing_input, matchedCount := 0, mp3UrlMap := Map.empty\<rparr>
         else if length mp3Lines \<noteq> length videoLines then
           st\<lparr>matchStatus := Error_count_mismatch, matchedCount := 0, mp3UrlMap := Map.empty\<rparr>
         else
           let (newMp3UrlMap, count) =
                 foldl (match_video (userInputMap videoLines mp3Lines)) (Map.empty, 0) videos
           in st\<lparr>matchStatus := (if count > 0 then Matched_of count (length videos) else No_match_found),
                 matchedCount := count, mp3UrlMap := newMp3UrlMap\<rparr>)"

text \<open>Matching fails when the status is one of the two error texts.\<close>

definition match_failed :: "match_state \<Rightarrow> bool" where
  "match_failed st = (matchStatus st = Error_missing_input \<or> matchStatus st = Error_count_mismatch)"

text \<open>
  The positional mapping of two aligned lists, from the words of the specification. Where
  a video URL occurs on several lines, the last line counts.
\<close>

definition positional_map :: "string list \<Rightarrow> string list \<Rightarrow> (string \<rightharpoonup> string)" where
  "positional_map videoLines mp3Lines = map_of (rev (zip videoLines mp3Lines))"

definition initial_match_state :: match_state where
  "initial_match_state = \<lparr>matchStatus = Status_none, matchedCount = 0, mp3UrlMap = Map.empty\<rparr>"

section \<open>Thrown values\<close>

text \<open>
  A message is an ASCII text of the source, or one of the two Vietnamese texts of the
  transcription client (the service returned no transcript; unknown error of the call).
  A thrown value is an \<open>Error\<close> with its message, or a value that is not an instance of
  \<open>Error\<close>, such as the event a \<open>FileReader\<close> hands to \<open>onerror\<close>.
\<close>

datatype message = Msg string | Msg_gemini_no_transcript | Msg_gemini_unknown

datatype js_error = Error message | Thrown_other

text \<open>The decimal text of a natural number, as a template literal renders it.\<close>

fun decimal :: "nat \<Rightarrow> string" where
  "decimal n =
     (if n < 10 then [char_of (48 + n)] else decimal (n div 10) @ [char_of (48 + n mod 10)])"

section \<open>The audio fetcher (getBase64FromUrl in App.tsx)\<close>

text \<open>
  What the network and the browser do with one request: \<open>fetch\<close> rejects, or it gives a
  response with its \<open>ok\<close> flag and status, whose body cannot be read or is a blob of a
  declared type; reading the blob as a data URL fails or ends with a result text.
\<close>

datatype reader_outcome = Reader_error | Reader_result string

datatype body_outcome = Body_rejects js_error | Blob string reader_outcome

datatype fetch_outcome = Fetch_rejects js_error | Response bool nat body_outcome

text \<open>
  The promise built around the \<open>FileReader\<close>: \<open>onerror\<close> rejects with the event,
  \<open>onloadend\<close> resolves with the text after the first comma of the data URL when that
  text is not empty, and rejects otherwise.
\<close>

fun read_blob :: "string \<Rightarrow> reader_outcome \<Rightarrow> js_error + (string \<times> string)" where
  "read_blob mimeType Reader_error = Inl Thrown_other"
| "read_blob mimeType (Reader_result dataUrl) =
     (case split_on COMMA dataUrl of
        _ # base64 # _ \<Rightarrow>
          if base64 \<noteq> [] then Inr (base64, mimeType)
          else Inl (Error (Msg ''Could not convert file to base64.''))
      | _ \<Rightarrow> Inl (Error (Msg ''Could not convert file to base64.'')))"

text \<open>
  The \<open>try\<close> block: it throws (\<open>Inl\<close>), or returns the promise without awaiting it
  (\<open>Inr\<close> of the settled promise).
\<close>

fun try_block :: "fetch_outcome \<Rightarrow> js_error + (js_error + (string \<times> string))" where
  "try_block (Fetch_rejects e) = Inl e"
| "try_block (Response ok status body) =
     (if \<not> ok then Inl (Error (Msg (''Network response was not ok, status: '' @ decimal status)))
      else case body of
        Body_rejects e \<Rightarrow> Inl e
      | Blob mimeType reader \<Rightarrow>
          if \<not> prefix ''audio/'' mimeType
          then Inl (Error (Msg (''Fetched file is not an audio file. Type: '' @ mimeType)))
          else Inr (read_blob mimeType reader))"

definition cors_message :: string where
  "cors_message =
     ''Could not fetch audio. This may be a CORS issue. Ensure the audio URL allows cross-origin requests.''"

text \<open>
  The \<open>catch\<close> block logs what was thrown in the \<open>try\<close> block and throws a new error with
  the fixed message. A rejection of the returned promise does not pass through it.
\<close>

definition getBase64FromUrl :: "fetch_outcome \<Rightarrow> js_error + (string \<times> string)" where
  "getBase64FromUrl world =
     (case try_block world of
        Inl error \<Rightarrow> Inl (Error (Msg cors_message))
      | Inr promise \<Rightarrow> promise)"

text \<open>
  The conditions under which a fetch fails, in the words of the specification: a failure
  of the transport, a content type that is not audio, a failure of the encoding.
\<close>

datatype failure_condition = Transport_failure | Non_audio_content | Encoding_failure

fun condition_of :: "fetch_outcome \<Rightarrow> failure_condition option" where
  "condition_of (Fetch_rejects e) = Some Transport_failure"
| "condition_of (Response ok status body) =
     (if \<not> ok then Some Transport_failure
      else case body of
        Body_rejects e \<Rightarrow> Some Transport_failure
      | Blob mimeType reader \<Rightarrow>
          if \<not> prefix ''audio/'' mimeType then Some Non_audio_content
          else (case read_blob mimeType reader of Inl e \<Rightarrow> Some Encoding_failure | Inr r \<Rightarrow> None))"

section \<open>The transcription client (transcribeAudioWithGemini)\<close>

text \<open>
  What the service does with one call of \<open>generateContent\<close>: the call rejects, or it
  returns a response whose \<open>text\<close> is a string or \<open>undefined\<close>.
\<close>

datatype gemini_outcome = Generate_rejects js_error | Generate_returns "string option"

definition transcribeAudioWithGemini :: "string \<Rightarrow> string \<Rightarrow> string \<Rightarrow> gemini_outcome \<Rightarrow> js_error + string" where
  "transcribeAudioWithGemini base64Audio mimeType apiKey service =
     (if apiKey = [] then Inl (Error (Msg ''Google AI API Key is not provided.''))
      else case service of
        Generate_rejects error \<Rightarrow>
          Inl (Error (case error of Error m \<Rightarrow> m | Thrown_other \<Rightarrow> Msg_gemini_unknown))
      | Generate_returns transcript \<Rightarrow>
          if \<not> truthy transcript then Inl (Error Msg_gemini_no_transcript)
          else Inr (the transcript))"

section \<open>The mapping of scan results (fetchTikTokData in services/apifyService.ts)\<close>











section \<open>The durable cache (useLocalStorage)\<close>

text \<open>
  The hook keeps the value in the state of the component and under a fixed key in the
  local storage of the browser. \<open>setValue\<close> with an updater function computes the new
  value from the latest one, stores it and makes it the state. The state is read from the
  storage once, when the component is created; the storage is written by \<open>setValue\<close>
  only, as the whole new value.
\<close>

record cache_store =
  storedValue :: TranscriptCache
  persisted :: TranscriptCache

definition setValue :: "(TranscriptCache \<Rightarrow> TranscriptCache) \<Rightarrow> cache_store \<Rightarrow> cache_store" where
  "setValue updater st =
     (let valueToStore = updater (storedValue st)
      in st\<lparr>storedValue := valueToStore, persisted := valueToStore\<rparr>)"

section \<open>The pipeline controller (runTranscription in App.tsx)\<close>

text \<open>
  The live status of an item: one of the five status words of \<open>TranscriptState\<close> and a
  text, which is one of the two progress texts (audio is being loaded; the transcription
  is running), a transcript, or the error prefix followed by a message.
\<close>

datatype item_status = St_idle | St_matched | St_loading | St_success | St_error

datatype progress_text =
    Text_loading_audio
  | Text_transcribing
  | Text_transcript string
  | Text_error message

record transcript_state =
  state_status :: item_status
  state_text :: progress_text

text \<open>
  The status line of the results step: ready; a stop was requested; item \<open>i\<close> of \<open>n\<close> is
  being processed, with the nickname of its author; stopped by the user after so many new
  transcripts; completed with so many new transcripts.
\<close>

datatype run_status =
    Ready
  | Stop_requested
  | Processing nat nat string
  | Stopped_by_user nat
  | Completed nat

text \<open>
  The actions of one invocation of \<open>runTranscription\<close>, in the order in which it
  performs them. The audio URL of a fetch is what \<open>mp3UrlMap[url]\<close> gave.
\<close>

datatype event =
    SetStatus run_status
  | SetTranscriptState string transcript_state
  | SetTranscriptCache string string
  | FetchAudio "string looked_up"
  | Transcribe string string
  | Delay nat

text \<open>
  The state an invocation works on. The stop signal (a ref of the component), the
  processing flag, the status line, the live statuses and the cache belong to the
  component and are shared with everything else that runs in it; \<open>successCount\<close> is a
  local variable of the invocation, and \<open>trace\<close> is the log of the invocation's own
  actions.
\<close>

record run_state =
  stopRequest :: bool
  isProcessing :: bool
  status :: run_status
  transcriptStates :: "string \<rightharpoonup> transcript_state"
  cache :: cache_store
  successCount :: nat
  trace :: "event list"

text \<open>
  What other code of the component does to the shared state while an invocation is
  suspended at an \<open>await\<close>: the stop button (\<open>handleStopProcessing\<close>); the cleanup of the
  effect, which runs when the view is torn down and before the effect runs again; another
  invocation of \<open>runTranscription\<close>, started by the effect, with its reset of the stop
  signal, its publications and its end; and \<open>handleStartOver\<close>, which clears the live
  statuses. The effect runs again whenever \<open>runTranscription\<close> is a new function, and
  that is after every render of \<open>App\<close>, because the setter that \<open>useLocalStorage\<close> returns
  is a new function on every render; so the publications of an invocation themselves
  start further invocations, which overlap with it.
\<close>

datatype outside_action =
    Stop_button
  | Effect_cleanup
  | Run_starts
  | Run_sets_status run_status
  | Run_sets_state string transcript_state
  | Run_caches string string
  | Run_ends
  | Start_over

definition handleStopProcessing :: "run_state \<Rightarrow> run_state" where
  "handleStopProcessing s = s\<lparr>stopRequest := True, status := Stop_requested\<rparr>"

fun outside :: "outside_action \<Rightarrow> run_state \<Rightarrow> run_state" where
  "outside Stop_button s = handleStopProcessing s"
| "outside Effect_cleanup s = s\<lparr>stopRequest := True\<rparr>"
| "outside Run_starts s = s\<lparr>stopRequest := False, isProcessing := True\<rparr>"
| "outside (Run_sets_status st) s = s\<lparr>status := st\<rparr>"
| "outside (Run_sets_state url ts) s = s\<lparr>transcriptStates := (transcriptStates s)(url \<mapsto> ts)\<rparr>"
| "outside (Run_caches url transcript) s =
     s\<lparr>cache := setValue (\<lambda>prev. prev(url \<mapsto> transcript)) (cache s)\<rparr>"
| "outside Run_ends s = s\<lparr>isProcessing := False\<rparr>"
| "outside Start_over s = s\<lparr>transcriptStates := Map.empty\<rparr>"

definition meanwhile :: "outside_action list \<Rightarrow> run_state \<Rightarrow> run_state" where
  "meanwhile acts s = fold outside acts s"

text \<open>
  What the world does during one iteration of the loop: the outcome of the audio request
  and of the transcription call, and the outside actions that happen while the audio
  fetch, the transcription call and the delay are awaited. Between two suspension points
  the invocation runs alone.
\<close>

record attempt_env =
  audio :: fetch_outcome
  gemini :: gemini_outcome
  during_fetch :: "outside_action list"
  during_transcribe :: "outside_action list"
  during_delay :: "outside_action list"

definition publish :: "event \<Rightarrow> run_state \<Rightarrow> run_state" where
  "publish e s = s\<lparr>trace := trace s @ [e]\<rparr>"

definition setStatus :: "run_status \<Rightarrow> run_state \<Rightarrow> run_state" where
  "setStatus st s = publish (SetStatus st) (s\<lparr>status := st\<rparr>)"

definition setTranscriptStates :: "string \<Rightarrow> transcript_state \<Rightarrow> run_state \<Rightarrow> run_state" where
  "setTranscriptStates url ts s =
     publish (SetTranscriptState url ts) (s\<lparr>transcriptStates := (transcriptStates s)(url \<mapsto> ts)\<rparr>)"

definition setTranscriptCache :: "string \<Rightarrow> string \<Rightarrow> run_state \<Rightarrow> run_state" where
  "setTranscriptCache url transcript s =
     publish (SetTranscriptCache url transcript)
       (s\<lparr>cache := setValue (\<lambda>prev. prev(url \<mapsto> transcript)) (cache s)\<rparr>)"

text \<open>\<open>error instanceof Error ? error.message : 'Unknown error'\<close>\<close>

fun error_message :: "js_error \<Rightarrow> message" where
  "error_message (Error m) = m"
| "error_message Thrown_other = Msg ''Unknown error''"

definition API_CALL_DELAY_MS :: nat where
  "API_CALL_DELAY_MS = 4000"

text \<open>
  The body of the loop for item \<open>i\<close> from after the test of the stop signal to the end
  of the \<open>try\<close> statement.
\<close>

definition process_item ::
  "attempt_env \<Rightarrow> (string \<rightharpoonup> string) \<Rightarrow> string \<Rightarrow> nat \<Rightarrow> nat \<Rightarrow> 'n TikTokVideo \<Rightarrow> run_state \<Rightarrow> run_state" where
  "process_item e mp3Map geminiApiKey i n video s =
     (let url = webVideoUrl video;
          mp3Url = js_get mp3Map url;
          s1 = setStatus (Processing (i + 1) n (nickName (authorMeta video))) s;
          s2 = setTranscriptStates url \<lparr>state_status = St_loading, state_text = Text_loading_audio\<rparr> s1;
          s3 = meanwhile (during_fetch e) (publish (FetchAudio mp3Url) s2)
      in case getBase64FromUrl (audio e) of
           Inl error \<Rightarrow>
             setTranscriptStates url
               \<lparr>state_status = St_error, state_text = Text_error (error_message error)\<rparr> s3
         | Inr (base64, mimeType) \<Rightarrow>
             let s4 = setTranscriptStates url
                        \<lparr>state_status = St_loading, state_text = Text_transcribing\<rparr> s3;
                 s5 = meanwhile (during_transcribe e) (publish (Transcribe base64 mimeType) s4)
             in case transcribeAudioWithGemini base64 mimeType geminiApiKey (gemini e) of
                  Inl error \<Rightarrow>
                    setTranscriptStates url
                      \<lparr>state_status = St_error, state_text = Text_error (error_message error)\<rparr> s5
                | Inr transcript \<Rightarrow>
                    let s6 = setTranscriptStates url
                               \<lparr>state_status = St_success, state_text = Text_transcript transcript\<rparr> s5;
                        s7 = setTranscriptCache url transcript s6
                    in s7\<lparr>successCount := successCount s7 + 1\<rparr>)"

text \<open>The wait before the next request, at the end of the body of the loop.\<close>

definition inter_call_delay :: "attempt_env \<Rightarrow> nat \<Rightarrow> nat \<Rightarrow> run_state \<Rightarrow> run_state" where
  "inter_call_delay e i n s =
     (if i < n - 1 \<and> \<not> stopRequest s
      then meanwhile (during_delay e) (publish (Delay API_CALL_DELAY_MS) s)
      else s)"

definition iteration ::
  "(nat \<Rightarrow> attempt_env) \<Rightarrow> (string \<rightharpoonup> string) \<Rightarrow> string \<Rightarrow> 'n TikTokVideo list \<Rightarrow> nat \<Rightarrow> run_state \<Rightarrow> run_state" where
  "iteration env mp3Map geminiApiKey work i s =
     inter_call_delay (env i) i (length work)
       (process_item (env i) mp3Map geminiApiKey i (length work) (work ! i) s)"

text \<open>The \<open>for\<close> loop, from index \<open>i\<close> on; the first branch of the body is the \<open>break\<close>.\<close>

function loop ::
  "(nat \<Rightarrow> attempt_env) \<Rightarrow> (string \<rightharpoonup> string) \<Rightarrow> string \<Rightarrow> 'n TikTokVideo list \<Rightarrow> nat \<Rightarrow> run_state \<Rightarrow> run_state" where
  "loop env mp3Map geminiApiKey work i s =
     (if i < length work then
        if stopRequest s then setStatus (Stopped_by_user (successCount s)) s
        else loop env mp3Map geminiApiKey work (i + 1) (iteration env mp3Map geminiApiKey work i s)
      else s)"
  by pat_completeness auto
termination
  by (relation "measure (\<lambda>(env, mp3Map, geminiApiKey, work, i, s). length work - i)") auto

declare loop.simps [simp del]

text \<open>
  The work-set, \<open>videos.filter(v => mp3UrlMap[v.webVideoUrl] && !transcriptCache[v.webVideoUrl])\<close>:
  the videos whose audio URL is looked up truthy and whose transcript is looked up falsy.
\<close>

definition videosToTranscribe ::
  "'n TikTokVideo list \<Rightarrow> (string \<rightharpoonup> string) \<Rightarrow> TranscriptCache \<Rightarrow> 'n TikTokVideo list" where
  "videosToTranscribe videos mp3Map transcriptCache =
     filter (\<lambda>v. truthy_value (js_get mp3Map (webVideoUrl v))
                \<and> \<not> truthy_value (js_get transcriptCache (webVideoUrl v))) videos"

text \<open>
  The first two statements of an invocation, with its local counter and its log: the
  stop signal is reset, whatever it was (\<open>// Reset stop signal for new run\<close>).
\<close>

definition run_start :: "run_state \<Rightarrow> run_state" where
  "run_start s = s\<lparr>stopRequest := False, isProcessing := True, successCount := 0, trace := []\<rparr>"

text \<open>
  One run: one invocation of \<open>runTranscription\<close>. The cache the work-set is computed
  from is the value of the cache that the invocation closes over, its state when the
  run starts. The invocation is not suspended before the first test of the stop signal,
  nor between the last test of the loop and its end.
\<close>

definition runTranscription ::
  "(nat \<Rightarrow> attempt_env) \<Rightarrow> 'n TikTokVideo list \<Rightarrow> (string \<rightharpoonup> string) \<Rightarrow> string \<Rightarrow> run_state \<Rightarrow> run_state" where
  "runTranscription env videos mp3Map geminiApiKey s =
     (let s0 = run_start s;
          work = videosToTranscribe videos mp3Map (storedValue (cache s));
          s1 = loop env mp3Map geminiApiKey work 0 s0;
          s2 = (if \<not> stopRequest s1 then setStatus (Completed (successCount s1)) s1 else s1)
      in s2\<lparr>isProcessing := False\<rparr>)"

subsection \<open>Notions used to state the properties of a run\<close>

fun is_fetch :: "event \<Rightarrow> bool" where
  "is_fetch (FetchAudio u) = True"
| "is_fetch e = False"

fun is_call :: "event \<Rightarrow> bool" where
  "is_call (FetchAudio u) = True"
| "is_call (Transcribe b m) = True"
| "is_call e = False"

fun is_delay :: "event \<Rightarrow> bool" where
  "is_delay (Delay d) = True"
| "is_delay e = False"

fun is_success :: "event \<Rightarrow> bool" where
  "is_success (SetTranscriptState url ts) = (state_status ts = St_success)"
| "is_success e = False"

fun is_error_for :: "string \<Rightarrow> event \<Rightarrow> bool" where
  "is_error_for u (SetTranscriptState url ts) = (url = u \<and> state_status ts = St_error)"
| "is_error_for u e = False"

fun is_cache_write_for :: "string \<Rightarrow> event \<Rightarrow> bool" where
  "is_cache_write_for u (SetTranscriptCache url t) = (url = u)"
| "is_cache_write_for u e = False"

text \<open>The state after the iterations \<open>i\<close> to \<open>m - 1\<close>, when none of them is cut short.\<close>

definition iterate ::
  "(nat \<Rightarrow> attempt_env) \<Rightarrow> (string \<rightharpoonup> string) \<Rightarrow> string \<Rightarrow> 'n TikTokVideo list \<Rightarrow> nat \<Rightarrow> nat \<Rightarrow> run_state \<Rightarrow> run_state" where
  "iterate env mp3Map geminiApiKey work i m s =
     fold (iteration env mp3Map geminiApiKey work) [i..<m] s"

text \<open>The work-set of the run that starts in state \<open>s\<close>.\<close>

definition work_of :: "'n TikTokVideo list \<Rightarrow> (string \<rightharpoonup> string) \<Rightarrow> run_state \<Rightarrow> 'n TikTokVideo list" where
  "work_of videos mp3Map s = videosToTranscribe videos mp3Map (storedValue (cache s))"

text \<open>
  The state in which the run that starts in \<open>s\<close> tests the stop signal at the top of
  iteration \<open>j\<close>, when it reaches that iteration; and the state in which it tests the
  signal before the delay of iteration \<open>j\<close>.
\<close>

definition at_top ::
  "(nat \<Rightarrow> attempt_env) \<Rightarrow> 'n TikTokVideo list \<Rightarrow> (string \<rightharpoonup> string) \<Rightarrow> string \<Rightarrow> run_state \<Rightarrow> nat \<Rightarrow> run_state" where
  "at_top env videos mp3Map geminiApiKey s j =
     iterate env mp3Map geminiApiKey (work_of videos mp3Map s) 0 j (run_start s)"

definition before_delay ::
  "(nat \<Rightarrow> attempt_env) \<Rightarrow> 'n TikTokVideo list \<Rightarrow> (string \<rightharpoonup> string) \<Rightarrow> string \<Rightarrow> run_state \<Rightarrow> nat \<Rightarrow> run_state" where
  "before_delay env videos mp3Map geminiApiKey s j =
     process_item (env j) mp3Map geminiApiKey j (length (work_of videos mp3Map s))
       (work_of videos mp3Map s ! j) (at_top env videos mp3Map geminiApiKey s j)"

text \<open>The attempt of iteration \<open>i\<close> succeeds with the transcript \<open>t\<close>.\<close>

definition attempt_result :: "attempt_env \<Rightarrow> string \<Rightarrow> js_error + string" where
  "attempt_result e geminiApiKey =
     (case getBase64FromUrl (audio e) of
        Inl error \<Rightarrow> Inl error
      | Inr (base64, mimeType) \<Rightarrow> transcribeAudioWithGemini base64 mimeType geminiApiKey (gemini e))"

text \<open>The calls of one attempt: the fetch, and the transcription when the fetch succeeds.\<close>

definition calls_of ::
  "(nat \<Rightarrow> attempt_env) \<Rightarrow> (string \<rightharpoonup> string) \<Rightarrow> 'n TikTokVideo list \<Rightarrow> nat \<Rightarrow> event list" where
  "calls_of env mp3Map work i =
     FetchAudio (js_get mp3Map (webVideoUrl (work ! i)))
       # (case getBase64FromUrl (audio (env i)) of
            Inl error \<Rightarrow> []
          | Inr (base64, mimeType) \<Rightarrow> [Transcribe base64 mimeType])"

text \<open>
  The stop signal after a list of outside actions: the stop button and the cleanup set
  it, the start of another invocation clears it.
\<close>

fun flag_step :: "outside_action \<Rightarrow> bool \<Rightarrow> bool" where
  "flag_step Stop_button b = True"
| "flag_step Effect_cleanup b = True"
| "flag_step Run_starts b = False"
| "flag_step a b = b"

definition flag_after :: "bool \<Rightarrow> outside_action list \<Rightarrow> bool" where
  "flag_after b acts = fold flag_step acts b"

text \<open>
  No stop reaches the invocation in this iteration: whenever it resumes, the signal is
  clear.
\<close>

definition calm :: "attempt_env \<Rightarrow> bool" where
  "calm e = (\<not> flag_after False (during_fetch e) \<and> \<not> flag_after False (during_transcribe e)
     \<and> \<not> flag_after False (during_delay e))"

text \<open>The outside actions of an iteration, and those that write the cache under a URL
  or the cache entry or live status of a URL.\<close>

definition actions_of :: "attempt_env \<Rightarrow> outside_action list" where
  "actions_of e = during_fetch e @ during_transcribe e @ during_delay e"

fun caches_under :: "string \<Rightarrow> outside_action \<Rightarrow> bool" where
  "caches_under u (Run_caches url t) = (url = u)"
| "caches_under u a = False"

fun touches :: "string \<Rightarrow> outside_action \<Rightarrow> bool" where
  "touches u (Run_caches url t) = (url = u)"
| "touches u (Run_sets_state url ts) = (url = u)"
| "touches u Start_over = True"
| "touches u a = False"

text \<open>
  The cache, its stored copy and the live status hold the transcript \<open>t\<close> for the URL
  \<open>u\<close>.
\<close>

definition holds_transcript :: "string \<Rightarrow> string \<Rightarrow> run_state \<Rightarrow> bool" where
  "holds_transcript u t s =
     (storedValue (cache s) u = Some t \<and> persisted (cache s) u = Some t
      \<and> transcriptStates s u = Some \<lparr>state_status = St_success, state_text = Text_transcript t\<rparr>)"


definition initial_run_state :: "TranscriptCache \<Rightarrow> run_state" where
  "initial_run_state c =
     \<lparr>stopRequest = False, isProcessing = False, status = Ready, transcriptStates = Map.empty,
      cache = \<lparr>storedValue = c, persisted = c\<rparr>, successCount = 0, trace = []\<rparr>"

text \<open>
  Worlds used in examples: every call succeeds and nothing else happens; the audio host
  is down; the stop button is pressed while the first audio is fetched, the effect runs
  again and its new invocation clears the signal, and the button is pressed once more
  during the delay after the first item; at every call and delay the effect runs again,
  its cleanup sets the stop signal and its new invocation clears it.
\<close>

definition ok_env :: "string \<Rightarrow> attempt_env" where
  "ok_env t =
     \<lparr>audio = Response True 200 (Blob ''audio/mpeg'' (Reader_result ''data:audio/mpeg;base64,AAAA'')),
      gemini = Generate_returns (Some t),
      during_fetch = [], during_transcribe = [], during_delay = []\<rparr>"

definition down_env :: attempt_env where
  "down_env =
     \<lparr>audio = Fetch_rejects (Error (Msg ''Failed to fetch'')),
      gemini = Generate_returns None,
      during_fetch = [], during_transcribe = [], during_delay = []\<rparr>"

definition stopping_env :: "nat \<Rightarrow> attempt_env" where
  "stopping_env i =
     (if i = 0
      then (ok_env ''hello'')
             \<lparr>during_fetch := [Stop_button, Effect_cleanup, Run_starts], during_delay := [Stop_button]\<rparr>
      else ok_env ''again'')"

definition rerun_env :: "nat \<Rightarrow> attempt_env" where
  "rerun_env i =
     (ok_env ''hello'')
       \<lparr>during_fetch := [Effect_cleanup, Run_starts], during_transcribe := [Effect_cleanup, Run_starts],
        during_delay := [Effect_cleanup, Run_starts]\<rparr>"

definition three_videos :: "nat TikTokVideo list" where
  "three_videos = [example_video ''1'' ''v1'', example_video ''2'' ''v2'', example_video ''3'' ''v3'']"

definition three_urls :: "string \<rightharpoonup> string" where
  "three_urls = Map.empty(''v1'' \<mapsto> ''a.mp3'', ''v2'' \<mapsto> ''b.mp3'', ''v3'' \<mapsto> ''c.mp3'')"

text \<open>
  Two scanned records with the same URL, and two worlds for them: in the first the second
  attempt finds the audio host down, in the second it gets another transcript.
\<close>

definition twin_videos :: "nat TikTokVideo list" where
  "twin_videos = [example_video ''1'' ''v1'', example_video ''2'' ''v1'']"

definition flaky_env :: "nat \<Rightarrow> attempt_env" where
  "flaky_env i = (if i = 0 then ok_env ''hello'' else down_env)"

definition changing_env :: "nat \<Rightarrow> attempt_env" where
  "changing_env i = (if i = 0 then ok_env ''hello'' else ok_env ''world'')"

section \<open>Verified properties\<close>

subsection \<open>The reader reads back what the sanitizer writes\<close>

lemma chars_distinct: "DQ \<noteq> COMMA" "DQ \<noteq> LF" "COMMA \<noteq> LF"
  by (simp_all add: DQ_def COMMA_def LF_def)

lemma read_unquoted:
  "\<not> needs_quoting s \<Longrightarrow> terminated rest \<Longrightarrow>
   csv_read Unquoted f r (s @ rest) = finish (f @ s) r rest"
proof (induction s arbitrary: f)
  case Nil
  then show ?case
    by (cases rest) (auto simp: finish_def terminated_def)
next
  case (Cons c s)
  then show ?case by (simp add: needs_quoting_def)
qed

lemma read_plain:
  "\<not> needs_quoting s \<Longrightarrow> terminated rest \<Longrightarrow>
   csv_read FieldStart [] r (s @ rest) = finish s r rest"
proof (cases s)
  case Nil
  assume "terminated rest"
  with Nil show ?thesis
    using chars_distinct by (cases rest) (auto simp: finish_def terminated_def)
next
  case (Cons c s')
  assume a: "\<not> needs_quoting s" "terminated rest"
  then have "\<not> needs_quoting s'" using Cons by (simp add: needs_quoting_def)
  from read_unquoted[OF this a(2), of "[c]" r] a Cons show ?thesis
    by (simp add: needs_quoting_def)
qed

lemma read_quoted:
  "terminated rest \<Longrightarrow>
   csv_read Quoted f r (double_quotes s @ DQ # rest) = finish (f @ s) r rest"
proof (induction s arbitrary: f)
  case Nil
  then show ?case
    using chars_distinct by (cases rest) (auto simp: finish_def terminated_def double_quotes_def)
next
  case (Cons c s)
  from Cons.IH[OF Cons.prems, of "f @ [c]"] show ?case
    by (auto simp: double_quotes_def)
qed

lemma read_field:
  "terminated rest \<Longrightarrow>
   csv_read FieldStart [] r (sanitizeCsvField (Str s) @ rest) = finish s r rest"
  using read_plain[of s rest r] read_quoted[of rest "[]" r s] by simp

lemma read_record:
  "fs \<noteq> [] \<Longrightarrow> rest = [] \<or> (\<exists>cs. rest = LF # cs) \<Longrightarrow>
   csv_read FieldStart [] r (write_record fs @ rest) = finish (last fs) (r @ butlast fs) rest"
proof (induction fs arbitrary: r)
  case Nil
  then show ?case by simp
next
  case (Cons x xs)
  show ?case
  proof (cases xs)
    case Nil
    have "terminated rest" using Cons.prems(2) by (auto simp: terminated_def)
    from read_field[OF this, of r x] Nil show ?thesis by (simp add: write_record_def)
  next
    case (Cons y ys)
    have t: "terminated (COMMA # write_record xs @ rest)" by (simp add: terminated_def)
    have "write_record (x # xs) = sanitizeCsvField (Str x) @ COMMA # write_record xs"
      using Cons by (simp add: write_record_def)
    then have "csv_read FieldStart [] r (write_record (x # xs) @ rest)
       = csv_read FieldStart [] (r @ [x]) (write_record xs @ rest)"
      using read_field[OF t, of r x] by (simp add: finish_def)
    also have "\<dots> = finish (last xs) ((r @ [x]) @ butlast xs) rest"
      using Cons.IH[of "r @ [x]"] Cons Cons.prems(2) by simp
    finally show ?thesis using Cons by simp
  qed
qed

lemma read_write_table:
  "rows \<noteq> [] \<Longrightarrow> \<forall>r \<in> set rows. r \<noteq> [] \<Longrightarrow> read_table (write_table rows) = rows"
proof (induction rows)
  case Nil
  then show ?case by simp
next
  case (Cons x xs)
  show ?case
  proof (cases xs)
    case Nil
    with Cons.prems read_record[of x "[]" "[]"] show ?thesis
      by (simp add: read_table_def write_table_def finish_def)
  next
    case (Cons y ys)
    have "write_table (x # xs) = write_record x @ LF # write_table xs"
      using Cons by (simp add: write_table_def)
    moreover have "csv_read FieldStart [] [] (write_record x @ LF # write_table xs)
        = x # read_table (write_table xs)"
      using read_record[of x "LF # write_table xs" "[]"] Cons.prems chars_distinct
      by (simp add: finish_def read_table_def)
    ultimately show ?thesis using Cons.IH Cons Cons.prems by (simp add: read_table_def)
  qed
qed

text \<open>
  Claim C9, as stated, fails. A carriage return breaks a line, and the sanitizer does not
  test for it: a string whose only special character is a carriage return is emitted as
  it is, not between double quotes.
\<close>

theorem sanitizeCsvField_carriage_return:
  "list_ex is_line_break (''a'' @ [CR] @ ''b'')
   \<and> sanitizeCsvField (Str (''a'' @ [CR] @ ''b'')) = ''a'' @ [CR] @ ''b''
   \<and> sanitizeCsvField (Str (''a'' @ [CR] @ ''b'')) \<noteq> [DQ] @ double_quotes (''a'' @ [CR] @ ''b'') @ [DQ]"
  by (simp add: is_line_break_def needs_quoting_def double_quotes_def DQ_def COMMA_def LF_def CR_def)

text \<open>
  Claim C9, amended. A string that contains a comma, a double quote or a line feed (the
  line break the sanitizer tests for, and the one the exporter puts between rows) is
  emitted between double quotes with every double quote of it doubled; any other string
  is emitted as it is. A reader of comma-separated tables that separates records at line
  feeds reads the emitted field back as the original string, alone and in any position
  of any table written this way.
\<close>

theorem sanitizeCsvField_roundtrip:
  "((DQ \<in> set s \<or> COMMA \<in> set s \<or> LF \<in> set s) \<longrightarrow>
       sanitizeCsvField (Str s) = [DQ] @ double_quotes s @ [DQ])
   \<and> (\<not> (DQ \<in> set s \<or> COMMA \<in> set s \<or> LF \<in> set s) \<longrightarrow> sanitizeCsvField (Str s) = s)
   \<and> read_table (sanitizeCsvField (Str s)) = [[s]]
   \<and> (rows \<noteq> [] \<and> (\<forall>r \<in> set rows. r \<noteq> []) \<longrightarrow>
        read_table (join LF (map (\<lambda>r. join COMMA (map (\<lambda>x. sanitizeCsvField (Str x)) r)) rows)) = rows)"
proof -
  have q: "needs_quoting s = (DQ \<in> set s \<or> COMMA \<in> set s \<or> LF \<in> set s)"
    by (auto simp: needs_quoting_def list_ex_iff)
  have one: "read_table (sanitizeCsvField (Str s)) = [[s]]"
    using read_write_table[of "[[s]]"] by (simp add: write_table_def write_record_def)
  have "join LF (map (\<lambda>r. join COMMA (map (\<lambda>x. sanitizeCsvField (Str x)) r)) rows) = write_table rows"
    by (simp add: write_table_def write_record_def[abs_def])
  then show ?thesis
    using q one read_write_table[of rows] by simp
qed

theorem sanitizeCsvField_roundtrip_witness:
  "sanitizeCsvField (Str (''a,b'' @ [DQ] @ ''c'')) = [DQ] @ ''a,b'' @ [DQ, DQ] @ ''c'' @ [DQ]
   \<and> sanitizeCsvField (Str ''plain text'') = ''plain text''
   \<and> read_table (sanitizeCsvField (Str (''a,b'' @ [DQ] @ ''c''))) = [[''a,b'' @ [DQ] @ ''c'']]
   \<and> read_table (join LF (map (\<lambda>r. join COMMA (map (\<lambda>x. sanitizeCsvField (Str x)) r))
         [[''a,b'' @ [DQ] @ ''c'', ''x''], [''two'' @ [LF] @ ''lines'']]))
       = [[''a,b'' @ [DQ] @ ''c'', ''x''], [''two'' @ [LF] @ ''lines'']]"
  using sanitizeCsvField_roundtrip[of "''a,b'' @ [DQ] @ ''c''"
          "[[''a,b'' @ [DQ] @ ''c'', ''x''], [''two'' @ [LF] @ ''lines'']]"]
        sanitizeCsvField_roundtrip[of "''plain text''" "[]"]
  by (simp add: needs_quoting_def double_quotes_def DQ_def COMMA_def LF_def)

subsection \<open>The export\<close>

lemma sanitize_plain: "\<not> needs_quoting p \<Longrightarrow> sanitizeCsvField (Str p) = p"
  by simp

lemma headers_plain: "\<forall>h \<in> set headers. \<not> needs_quoting h"
  by (simp add: headers_def needs_quoting_def DQ_def COMMA_def LF_def)

lemma bool_str_plain: "\<not> needs_quoting (bool_str b)"
  by (simp add: bool_str_def needs_quoting_def DQ_def COMMA_def LF_def)

lemma write_record_plain:
  "\<forall>h \<in> set hs. \<not> needs_quoting h \<Longrightarrow> write_record hs = join COMMA hs"
proof -
  assume "\<forall>h \<in> set hs. \<not> needs_quoting h"
  then have "map (\<lambda>x. sanitizeCsvField (Str x)) hs = hs"
    by (induction hs) auto
  then show ?thesis by (simp add: write_record_def)
qed

lemma row_fields_write:
  "\<forall>n. \<not> needs_quoting (num_str n) \<Longrightarrow>
   join COMMA (row_fields num_str transcripts video) = write_record (row_values num_str transcripts video)"
  using bool_str_plain by (simp add: row_fields_def row_values_def write_record_def)

lemma join_Cons: "ys \<noteq> [] \<Longrightarrow> join sep (x # ys) = x @ sep # join sep ys"
  by (cases ys) simp_all

lemma csv_text_write_table:
  assumes "\<forall>n. \<not> needs_quoting (num_str n)" "videos \<noteq> []"
  shows "join COMMA headers @ [LF] @ join LF (map (\<lambda>video. join COMMA (row_fields num_str transcripts video)) videos)
     = write_table (headers # map (row_values num_str transcripts) videos)"
proof -
  have m: "map (\<lambda>video. join COMMA (row_fields num_str transcripts video)) videos
      = map write_record (map (row_values num_str transcripts) videos)"
    using row_fields_write[OF assms(1)] by simp
  have h: "join COMMA headers = write_record headers"
    using write_record_plain[OF headers_plain] by simp
  have "write_table (headers # map (row_values num_str transcripts) videos)
      = write_record headers @ LF # join LF (map write_record (map (row_values num_str transcripts) videos))"
    using assms(2) unfolding write_table_def by (simp add: join_Cons)
  then show ?thesis unfolding m h by simp
qed

lemma length_row_values: "length (row_values num_str transcripts video) = 18"
  by (simp add: row_values_def)

lemma sentinel_when_missing:
  "transcripts (webVideoUrl video) = None \<Longrightarrow> webVideoUrl video \<notin> set object_prototype_names \<Longrightarrow>
   transcript_or_sentinel transcripts video = ''N/A''"
  by (simp add: transcript_or_sentinel_def js_get_def)

lemma last_row_fields_sentinel:
  "transcripts (webVideoUrl video) = None \<Longrightarrow> webVideoUrl video \<notin> set object_prototype_names \<Longrightarrow>
   last (row_fields num_str transcripts video) = ''N/A''"
  by (simp add: row_fields_def sentinel_when_missing needs_quoting_def DQ_def COMMA_def LF_def)

text \<open>Without a carriage return in the text the two readers read the same table.\<close>

lemma csv_read_breaks_plain:
  "CR \<notin> set cs \<Longrightarrow> st \<noteq> BAfterCR \<Longrightarrow> csv_read_breaks st f r cs = csv_read (plain_state st) f r cs"
proof (induction cs arbitrary: st f r)
  case Nil
  then show ?case by simp
next
  case (Cons c cs)
  then show ?case by (cases st) auto
qed

lemma read_table_breaks_plain: "CR \<notin> set s \<Longrightarrow> read_table_breaks s = read_table s"
  by (simp add: read_table_breaks_def read_table_def csv_read_breaks_plain)

lemma odd_row:
  "row_fields zero_str Map.empty odd_video =
     [''1'', ''constructor'', ''1970-01-01T00:00:00.000Z'', ''Unknown'', ''Unknown'', '''',
      ''a'' @ [CR] @ ''b'', ''0'', ''0'', ''0'', ''0'', ''0'', ''0'', ''0'', ''N/A'', ''N/A'', ''false'',
      ''function Object() { [native code] }'']"
  by (simp add: row_fields_def odd_video_def example_video_def zero_str_def bool_str_def
      transcript_or_sentinel_def js_get_def object_prototype_names_def inherited_text_def
      needs_quoting_def DQ_def COMMA_def LF_def CR_def)

text \<open>
  Claim C8, as stated, fails. For one video and an empty cache the exported text has the
  header line and one row; the description of the video holds a carriage return, which
  the sanitizer leaves unquoted, so that a reader that ends records at line breaks reads
  three records. The URL of the video has no entry in the cache, and its transcript
  field is not \<open>N/A\<close> but the text of the member of that name that the cache object
  inherits.
\<close>

theorem export_row_split_and_inherited_transcript:
  "(\<exists>content.
      downloadCsv zero_str [odd_video] Map.empty = Download ''tiktok_transcripts_full.csv'' (Bom_then content)
    \<and> length (read_table_breaks content) = 3
    \<and> read_table content ! 1 ! 17 = ''function Object() { [native code] }'')
   \<and> Map.empty (webVideoUrl odd_video) = (None :: string option)
   \<and> last (row_fields zero_str Map.empty odd_video) \<noteq> ''N/A''"
proof -
  let ?content = "join COMMA headers @ [LF] @ join LF [join COMMA (row_fields zero_str Map.empty odd_video)]"
  have d: "downloadCsv zero_str [odd_video] Map.empty = Download ''tiktok_transcripts_full.csv'' (Bom_then ?content)"
    by (simp add: downloadCsv_def Let_def)
  have b: "length (read_table_breaks ?content) = 3"
    unfolding odd_row by (simp add: read_table_breaks_def headers_def DQ_def COMMA_def LF_def CR_def)
  have r: "read_table ?content ! 1 ! 17 = ''function Object() { [native code] }''"
    unfolding odd_row by (simp add: read_table_def headers_def DQ_def COMMA_def LF_def CR_def)
  have l: "last (row_fields zero_str Map.empty odd_video) \<noteq> ''N/A''"
    unfolding odd_row by simp
  from d b r l show ?thesis by blast
qed

text \<open>
  Claim C8, amended. For a list of videos that is not empty, and whatever the cache holds,
  the export offers a file whose text, after the byte-order mark, is the header line and
  one line per video. A reader that separates records at line feeds reads the header and
  exactly one record of eighteen fields per video, in the order of the list; a reader
  that ends records at every line break reads the same when the text holds no carriage
  return. Where the cache has no entry for the URL of a video, and the URL is not the name
  of a member of \<open>Object.prototype\<close>, the last element of its row, the transcript, is
  \<open>N/A\<close>. The text that JavaScript gives a number contains no comma, double quote or line
  feed.
\<close>

theorem export_one_row_per_video:
  assumes "videos \<noteq> []" and "\<forall>n. \<not> needs_quoting (num_str n)"
  shows "\<exists>content.
     downloadCsv num_str videos transcripts = Download ''tiktok_transcripts_full.csv'' (Bom_then content)
   \<and> content = join LF (join COMMA headers # map (\<lambda>video. join COMMA (row_fields num_str transcripts video)) videos)
   \<and> read_table content = headers # map (row_values num_str transcripts) videos
   \<and> length (read_table content) = Suc (length videos)
   \<and> (CR \<notin> set content \<longrightarrow> read_table_breaks content = read_table content)
   \<and> (\<forall>i < length videos.
        length (read_table content ! Suc i) = 18
      \<and> (transcripts (webVideoUrl (videos ! i)) = None
           \<and> webVideoUrl (videos ! i) \<notin> set object_prototype_names \<longrightarrow>
           last (row_fields num_str transcripts (videos ! i)) = ''N/A''
         \<and> read_table content ! Suc i ! 17 = ''N/A''))"
proof -
  let ?rows = "map (\<lambda>video. join COMMA (row_fields num_str transcripts video)) videos"
  let ?content = "join LF (join COMMA headers # ?rows)"
  let ?table = "headers # map (row_values num_str transcripts) videos"
  have c: "?content = join COMMA headers @ [LF] @ join LF ?rows"
    using assms(1) by (simp add: join_Cons)
  have d: "downloadCsv num_str videos transcripts
      = Download ''tiktok_transcripts_full.csv'' (Bom_then ?content)"
    using assms(1) c by (simp add: downloadCsv_def Let_def)
  have "\<forall>r \<in> set ?table. r \<noteq> []"
    by (auto simp: headers_def row_values_def)
  then have r: "read_table ?content = ?table"
    using c csv_text_write_table[OF assms(2) assms(1), of transcripts] read_write_table[of ?table]
    by simp
  have b: "CR \<notin> set ?content \<longrightarrow> read_table_breaks ?content = read_table ?content"
    using read_table_breaks_plain[of ?content] by blast
  have "\<forall>i < length videos.
        length (read_table ?content ! Suc i) = 18
      \<and> (transcripts (webVideoUrl (videos ! i)) = None
           \<and> webVideoUrl (videos ! i) \<notin> set object_prototype_names \<longrightarrow>
           last (row_fields num_str transcripts (videos ! i)) = ''N/A''
         \<and> read_table ?content ! Suc i ! 17 = ''N/A'')"
    using r last_row_fields_sentinel[of transcripts _ num_str]
    by (simp add: length_row_values) (simp add: row_values_def sentinel_when_missing)
  with d r b show ?thesis by simp
qed

theorem export_one_row_per_video_witness:
  "\<exists>content.
     downloadCsv zero_str [example_video ''1'' ''v1'', example_video ''2'' ''v2''] (Map.empty(''v2'' \<mapsto> ''hello''))
       = Download ''tiktok_transcripts_full.csv'' (Bom_then content)
   \<and> length (read_table content) = 3
   \<and> length (read_table_breaks content) = 3
   \<and> read_table content ! 1 ! 17 = ''N/A''"
proof -
  let ?videos = "[example_video ''1'' ''v1'', example_video ''2'' ''v2'']"
  let ?cache = "Map.empty(''v2'' \<mapsto> ''hello'')"
  have a: "?videos \<noteq> []" by simp
  have b: "\<forall>n. \<not> needs_quoting (zero_str n)"
    by (simp add: zero_str_def needs_quoting_def DQ_def COMMA_def LF_def)
  have c: "?cache (webVideoUrl (example_video ''1'' ''v1'')) = None
      \<and> webVideoUrl (example_video ''1'' ''v1'') \<notin> set object_prototype_names"
    by (simp add: example_video_def object_prototype_names_def)
  from export_one_row_per_video[OF a b, of ?cache]
  obtain content where
    d: "downloadCsv zero_str ?videos ?cache = Download ''tiktok_transcripts_full.csv'' (Bom_then content)"
    and e: "content = join LF (join COMMA headers # map (\<lambda>video. join COMMA (row_fields zero_str ?cache video)) ?videos)"
    and l: "length (read_table content) = Suc (length ?videos)"
    and k: "CR \<notin> set content \<longrightarrow> read_table_breaks content = read_table content"
    and r: "\<forall>i < length ?videos.
        length (read_table content ! Suc i) = 18
      \<and> (?cache (webVideoUrl (?videos ! i)) = None
           \<and> webVideoUrl (?videos ! i) \<notin> set object_prototype_names \<longrightarrow>
           last (row_fields zero_str ?cache (?videos ! i)) = ''N/A''
         \<and> read_table content ! Suc i ! 17 = ''N/A'')"
    by blast
  have "CR \<notin> set content"
    unfolding e
    by (simp add: headers_def row_fields_def example_video_def zero_str_def bool_str_def
        transcript_or_sentinel_def js_get_def object_prototype_names_def needs_quoting_def
        DQ_def COMMA_def LF_def CR_def)
  with k l have m: "length (read_table_breaks content) = 3" by simp
  from r c have "read_table content ! 1 ! 17 = ''N/A''" by auto
  with d l m show ?thesis by auto
qed

subsection \<open>The item matcher\<close>

lemma userInputMap_prefix:
  "n \<le> length videoLines \<Longrightarrow> n \<le> length mp3Lines \<Longrightarrow>
   foldl (\<lambda>m i. m(videoLines ! i \<mapsto> mp3Lines ! i)) Map.empty [0..<n]
     = map_of (rev (zip (take n videoLines) (take n mp3Lines)))"
proof (induction n)
  case 0
  then show ?case by simp
next
  case (Suc n)
  then show ?case
    by (simp add: take_Suc_conv_app_nth)
qed

lemma userInputMap_positional:
  "length mp3Lines = length videoLines \<Longrightarrow>
   userInputMap videoLines mp3Lines = positional_map videoLines mp3Lines"
  using userInputMap_prefix[of "length videoLines" videoLines mp3Lines]
  by (simp add: userInputMap_def positional_map_def)

lemma dom_positional_map:
  "length mp3Lines = length videoLines \<Longrightarrow> dom (positional_map videoLines mp3Lines) = set videoLines"
proof -
  assume l: "length mp3Lines = length videoLines"
  have "dom (positional_map videoLines mp3Lines) = set (map fst (zip videoLines mp3Lines))"
    unfolding positional_map_def dom_map_of_conv_image_fst by simp
  with l show ?thesis by simp
qed

lemma js_set_no_proto:
  "m ''__proto__'' = None \<Longrightarrow> js_set m u a = (if u = ''__proto__'' then m else m(u \<mapsto> a))"
  by (simp add: js_set_def)

lemma match_videos_fold:
  "m ''__proto__'' = None \<Longrightarrow>
   foldl (match_video U) (m, c) videos
     = (m ++ (U |` (webVideoUrl ` set videos - {''__proto__''})),
        c + length (filter (\<lambda>video. U (webVideoUrl video) \<noteq> None) videos))"
proof (induction videos arbitrary: m c)
  case Nil
  then show ?case by simp
next
  case (Cons v vs)
  show ?case
  proof (cases "U (webVideoUrl v)")
    case None
    then have "m ++ (U |` (webVideoUrl ` set (v # vs) - {''__proto__''}))
        = m ++ (U |` (webVideoUrl ` set vs - {''__proto__''}))"
      by (intro ext) (auto simp: map_add_def restrict_map_def)
    with None Cons.IH[of m c] Cons.prems show ?thesis by (simp add: match_video_def)
  next
    case (Some a)
    let ?m = "js_set m (webVideoUrl v) a"
    have p: "?m ''__proto__'' = None"
      using Cons.prems by (simp add: js_set_no_proto)
    have e: "?m ++ (U |` (webVideoUrl ` set vs - {''__proto__''}))
        = m ++ (U |` (webVideoUrl ` set (v # vs) - {''__proto__''}))"
      using Some Cons.prems
      by (intro ext) (auto simp: js_set_no_proto map_add_def restrict_map_def split: option.splits)
    have "foldl (match_video U) (m, c) (v # vs) = foldl (match_video U) (?m, c + 1) vs"
      using Some by (simp add: match_video_def)
    also have "\<dots> = (?m ++ (U |` (webVideoUrl ` set vs - {''__proto__''})),
        c + 1 + length (filter (\<lambda>video. U (webVideoUrl video) \<noteq> None) vs))"
      using Cons.IH[of ?m "c + 1"] p by simp
    also have "\<dots> = (m ++ (U |` (webVideoUrl ` set (v # vs) - {''__proto__''})),
        c + length (filter (\<lambda>video. U (webVideoUrl video) \<noteq> None) (v # vs)))"
      unfolding e using Some by simp
    finally show ?thesis .
  qed
qed

lemma handleMatch_success:
  assumes "lines_of mp3UrlsInput \<noteq> []"
    and "length (lines_of mp3UrlsInput) = length (lines_of videoUrlsInput)"
  shows "handleMatch videos mp3UrlsInput videoUrlsInput st =
     (let U = positional_map (lines_of videoUrlsInput) (lines_of mp3UrlsInput);
          count = length (filter (\<lambda>video. webVideoUrl video \<in> set (lines_of videoUrlsInput)) videos)
      in st\<lparr>matchStatus := (if count > 0 then Matched_of count (length videos) else No_match_found),
            matchedCount := count, mp3UrlMap := U |` (webVideoUrl ` set videos - {''__proto__''})\<rparr>)"
proof -
  let ?v = "lines_of videoUrlsInput" and ?a = "lines_of mp3UrlsInput"
  have u: "userInputMap ?v ?a = positional_map ?v ?a"
    using assms(2) by (rule userInputMap_positional)
  have d: "(\<lambda>video::'a TikTokVideo. positional_map ?v ?a (webVideoUrl video) \<noteq> None)
      = (\<lambda>video. webVideoUrl video \<in> set ?v)"
    using dom_positional_map[OF assms(2)] by (intro ext) (metis domIff)
  have f: "foldl (match_video (userInputMap ?v ?a)) (Map.empty, 0) videos
      = (positional_map ?v ?a |` (webVideoUrl ` set videos - {''__proto__''}),
         length (filter (\<lambda>video. webVideoUrl video \<in> set ?v) videos))"
    unfolding u using match_videos_fold[of Map.empty "positional_map ?v ?a" 0 videos] d by simp
  have "?v \<noteq> []" using assms by auto
  then show ?thesis
    using assms(1) assms(2) unfolding handleMatch_def Let_def f by simp
qed


lemma positional_map_SomeD:
  "positional_map vl al u = Some a \<Longrightarrow> \<exists>i. i < length vl \<and> i < length al \<and> vl ! i = u \<and> al ! i = a"
proof -
  assume "positional_map vl al u = Some a"
  then have "(u, a) \<in> set (zip vl al)"
    unfolding positional_map_def by (auto dest: map_of_SomeD)
  then show ?thesis by (auto simp: in_set_zip)
qed

lemma count_distinct_urls:
  assumes "distinct (map webVideoUrl videos)"
  shows "length (filter (\<lambda>video. webVideoUrl video \<in> S) videos) = card (S \<inter> webVideoUrl ` set videos)"
proof -
  have "length (filter (\<lambda>video. webVideoUrl video \<in> S) videos)
      = length (filter (\<lambda>u. u \<in> S) (map webVideoUrl videos))"
    by (simp add: filter_map comp_def)
  also have "\<dots> = card (set (filter (\<lambda>u. u \<in> S) (map webVideoUrl videos)))"
    using assms distinct_card[of "filter (\<lambda>u. u \<in> S) (map webVideoUrl videos)"]
    by (simp only: distinct_filter)
  also have "set (filter (\<lambda>u. u \<in> S) (map webVideoUrl videos)) = S \<inter> webVideoUrl ` set videos"
    by auto
  finally show ?thesis .
qed

lemma example_lines:
  "lines_of (''a.mp3'' @ [LF] @ ''b.mp3'') = [''a.mp3'', ''b.mp3'']"
  "lines_of (''v1'' @ [LF] @ ''v2'') = [''v1'', ''v2'']"
  by (simp_all add: lines_of_def trim_def is_js_space_def LF_def)

text \<open>
  Off the name \<open>__proto__\<close> the matcher builds the positional mapping. When the two
  inputs, split into lines, trimmed and freed of blank lines, have the same number of
  lines and are not empty, matching does not fail. The mapping it stores is the
  positional mapping from video URL to audio URL, restricted to the URLs of the scanned
  videos other than \<open>__proto__\<close>; each of its entries pairs the video URL of some line
  with the audio URL of the same line. The matched count is the number of scanned videos
  whose URL is among the lines, which is the size of the mapping when the scanned URLs
  are distinct and none of them is \<open>__proto__\<close>.
\<close>

lemma handleMatch_off_proto:
  assumes "lines_of mp3UrlsInput \<noteq> []"
    and "length (lines_of mp3UrlsInput) = length (lines_of videoUrlsInput)"
  shows "\<not> match_failed (handleMatch videos mp3UrlsInput videoUrlsInput st)
   \<and> mp3UrlMap (handleMatch videos mp3UrlsInput videoUrlsInput st)
       = positional_map (lines_of videoUrlsInput) (lines_of mp3UrlsInput)
           |` (webVideoUrl ` set videos - {''__proto__''})
   \<and> (\<forall>u a. mp3UrlMap (handleMatch videos mp3UrlsInput videoUrlsInput st) u = Some a \<longrightarrow>
          u \<in> webVideoUrl ` set videos
        \<and> (\<exists>i < length (lines_of videoUrlsInput).
              lines_of videoUrlsInput ! i = u \<and> lines_of mp3UrlsInput ! i = a))
   \<and> card (dom (mp3UrlMap (handleMatch videos mp3UrlsInput videoUrlsInput st)))
       = card (set (lines_of videoUrlsInput) \<inter> (webVideoUrl ` set videos - {''__proto__''}))
   \<and> matchedCount (handleMatch videos mp3UrlsInput videoUrlsInput st)
       = length (filter (\<lambda>video. webVideoUrl video \<in> set (lines_of videoUrlsInput)) videos)
   \<and> (distinct (map webVideoUrl videos) \<and> ''__proto__'' \<notin> webVideoUrl ` set videos \<longrightarrow>
        matchedCount (handleMatch videos mp3UrlsInput videoUrlsInput st)
          = card (dom (mp3UrlMap (handleMatch videos mp3UrlsInput videoUrlsInput st))))"
proof -
  let ?vl = "lines_of videoUrlsInput" and ?al = "lines_of mp3UrlsInput"
  let ?known = "webVideoUrl ` set videos - {''__proto__''}"
  let ?r = "handleMatch videos mp3UrlsInput videoUrlsInput st"
  note s = handleMatch_success[OF assms, of videos st]
  have m: "mp3UrlMap ?r = positional_map ?vl ?al |` ?known"
    unfolding s by (simp add: Let_def)
  have c: "matchedCount ?r = length (filter (\<lambda>video. webVideoUrl video \<in> set ?vl) videos)"
    unfolding s by (simp add: Let_def)
  have f: "\<not> match_failed ?r"
    unfolding s by (simp add: Let_def match_failed_def)
  have d: "dom (mp3UrlMap ?r) = set ?vl \<inter> ?known"
    unfolding m using dom_positional_map[OF assms(2)] by simp
  have p: "\<forall>u a. mp3UrlMap ?r u = Some a \<longrightarrow>
          u \<in> webVideoUrl ` set videos \<and> (\<exists>i < length ?vl. ?vl ! i = u \<and> ?al ! i = a)"
  proof (intro allI impI)
    fix u a assume "mp3UrlMap ?r u = Some a"
    then have "u \<in> ?known" and "positional_map ?vl ?al u = Some a"
      unfolding m by (auto simp: restrict_map_def split: if_splits)
    then show "u \<in> webVideoUrl ` set videos \<and> (\<exists>i < length ?vl. ?vl ! i = u \<and> ?al ! i = a)"
      using positional_map_SomeD[of ?vl ?al u a] by blast
  qed
  have k: "distinct (map webVideoUrl videos) \<and> ''__proto__'' \<notin> webVideoUrl ` set videos \<longrightarrow>
      matchedCount ?r = card (dom (mp3UrlMap ?r))"
    unfolding c d using count_distinct_urls[of videos "set ?vl"] by auto
  have d': "card (dom (mp3UrlMap ?r)) = card (set ?vl \<inter> ?known)"
    unfolding d ..
  show ?thesis
    by (intro conjI) (rule f m p d' c k)+
qed

lemma example_match:
  "mp3UrlMap (handleMatch [example_video ''1'' ''v1''] (''a.mp3'' @ [LF] @ ''b.mp3'')
      (''v1'' @ [LF] @ ''v2'') initial_match_state) = Map.empty(''v1'' \<mapsto> ''a.mp3'')
   \<and> matchedCount (handleMatch [example_video ''1'' ''v1''] (''a.mp3'' @ [LF] @ ''b.mp3'')
      (''v1'' @ [LF] @ ''v2'') initial_match_state) = 1"
proof -
  have e1: "lines_of (''a.mp3'' @ [LF] @ ''b.mp3'') \<noteq> []"
    and e2: "length (lines_of (''a.mp3'' @ [LF] @ ''b.mp3'')) = length (lines_of (''v1'' @ [LF] @ ''v2''))"
    unfolding example_lines by simp_all
  note es = handleMatch_success[OF e1 e2, of "[example_video ''1'' ''v1'']" initial_match_state]
  have x1: "mp3UrlMap (handleMatch [example_video ''1'' ''v1''] (''a.mp3'' @ [LF] @ ''b.mp3'')
          (''v1'' @ [LF] @ ''v2'') initial_match_state) = Map.empty(''v1'' \<mapsto> ''a.mp3'')"
    unfolding es example_lines
    by (intro ext) (simp add: Let_def positional_map_def restrict_map_def example_video_def)
  have x2: "matchedCount (handleMatch [example_video ''1'' ''v1''] (''a.mp3'' @ [LF] @ ''b.mp3'')
          (''v1'' @ [LF] @ ''v2'') initial_match_state) = 1"
    unfolding es example_lines by (simp add: Let_def example_video_def)
  from x1 x2 show ?thesis by (rule conjI)
qed

lemma proto_lines:
  "lines_of ''a.mp3'' = [''a.mp3'']" "lines_of ''__proto__'' = [''__proto__'']"
  by (simp_all add: lines_of_def trim_def is_js_space_def LF_def)

text \<open>
  Claim C5. The code does not do what the claim states when a scanned video has the URL
  \<open>__proto__\<close>. With that URL on the one video line, \<open>a.mp3\<close> on the one audio line and
  one scanned video of that URL, the inputs are not empty and of equal length, and the
  positional mapping restricted to the scanned URLs is the one pair of \<open>__proto__\<close> and
  \<open>a.mp3\<close>. Matching does not fail and reports one match of one video, but the mapping
  it stores is empty: the assignment to the object under that name stores nothing.
\<close>

theorem handleMatch_proto_pair_lost:
  "lines_of ''a.mp3'' \<noteq> [] \<and> length (lines_of ''a.mp3'') = length (lines_of ''__proto__'')
   \<and> positional_map (lines_of ''__proto__'') (lines_of ''a.mp3'')
        |` (webVideoUrl ` set [example_video ''1'' ''__proto__'']) = Map.empty(''__proto__'' \<mapsto> ''a.mp3'')
   \<and> \<not> match_failed (handleMatch [example_video ''1'' ''__proto__''] ''a.mp3'' ''__proto__'' initial_match_state)
   \<and> matchStatus (handleMatch [example_video ''1'' ''__proto__''] ''a.mp3'' ''__proto__'' initial_match_state)
        = Matched_of 1 1
   \<and> matchedCount (handleMatch [example_video ''1'' ''__proto__''] ''a.mp3'' ''__proto__'' initial_match_state) = 1
   \<and> mp3UrlMap (handleMatch [example_video ''1'' ''__proto__''] ''a.mp3'' ''__proto__'' initial_match_state)
        = Map.empty"
proof -
  let ?r = "handleMatch [example_video ''1'' ''__proto__''] ''a.mp3'' ''__proto__'' initial_match_state"
  have a: "lines_of ''a.mp3'' \<noteq> []" and b: "length (lines_of ''a.mp3'') = length (lines_of ''__proto__'')"
    unfolding proto_lines by simp_all
  have p: "positional_map (lines_of ''__proto__'') (lines_of ''a.mp3'')
        |` (webVideoUrl ` set [example_video ''1'' ''__proto__'']) = Map.empty(''__proto__'' \<mapsto> ''a.mp3'')"
    unfolding proto_lines
    by (intro ext) (simp add: positional_map_def restrict_map_def example_video_def)
  have r: "?r = initial_match_state\<lparr>matchStatus := Matched_of 1 1, matchedCount := 1, mp3UrlMap := Map.empty\<rparr>"
    unfolding handleMatch_def proto_lines
    by (simp add: Let_def userInputMap_def match_video_def js_set_def example_video_def)
  have f: "\<not> match_failed ?r" unfolding r by (simp add: match_failed_def)
  have s: "matchStatus ?r = Matched_of 1 1" unfolding r by simp
  have c: "matchedCount ?r = 1" unfolding r by simp
  have m: "mp3UrlMap ?r = Map.empty" unfolding r by simp
  show ?thesis
    by (intro conjI) (rule a b p f s c m)+
qed

text \<open>
  Claim C6. Matching fails exactly when, after trimming and dropping blank lines, one of
  the two inputs has no line or the two differ in their number of lines, whatever the
  lines and the scanned videos are; and when it fails, the stored mapping is empty and
  the matched count is zero.
\<close>

theorem handleMatch_failure:
  "match_failed (handleMatch videos mp3UrlsInput videoUrlsInput st)
     = (lines_of mp3UrlsInput = [] \<or> lines_of videoUrlsInput = []
        \<or> length (lines_of mp3UrlsInput) \<noteq> length (lines_of videoUrlsInput))
   \<and> (match_failed (handleMatch videos mp3UrlsInput videoUrlsInput st) \<longrightarrow>
        mp3UrlMap (handleMatch videos mp3UrlsInput videoUrlsInput st) = Map.empty
      \<and> matchedCount (handleMatch videos mp3UrlsInput videoUrlsInput st) = 0)"
proof (cases "lines_of mp3UrlsInput = [] \<or> lines_of videoUrlsInput = []
        \<or> length (lines_of mp3UrlsInput) \<noteq> length (lines_of videoUrlsInput)")
  case True
  then show ?thesis
    by (auto simp: handleMatch_def Let_def match_failed_def)
next
  case False
  then have "\<not> match_failed (handleMatch videos mp3UrlsInput videoUrlsInput st)"
    using handleMatch_success[of mp3UrlsInput videoUrlsInput videos st]
    by (simp add: Let_def match_failed_def)
  with False show ?thesis by simp
qed

theorem handleMatch_failure_witness:
  "match_failed (handleMatch [example_video ''1'' ''v1''] ''a.mp3'' (''v1'' @ [LF] @ ''v2'') initial_match_state)
   \<and> mp3UrlMap (handleMatch [example_video ''1'' ''v1''] ''a.mp3'' (''v1'' @ [LF] @ ''v2'') initial_match_state) = Map.empty
   \<and> matchedCount (handleMatch [example_video ''1'' ''v1''] ''a.mp3'' (''v1'' @ [LF] @ ''v2'') initial_match_state) = 0
   \<and> \<not> match_failed (handleMatch [example_video ''1'' ''v9''] ''a.mp3'' ''v1'' initial_match_state)"
proof -
  have l: "lines_of ''a.mp3'' = [''a.mp3'']" "lines_of (''v1'' @ [LF] @ ''v2'') = [''v1'', ''v2'']"
     "lines_of ''v1'' = [''v1'']"
    by (simp_all add: lines_of_def trim_def is_js_space_def LF_def)
  show ?thesis
    using handleMatch_failure[of "[example_video ''1'' ''v1'']" "''a.mp3''" "''v1'' @ [LF] @ ''v2''" initial_match_state]
      handleMatch_failure[of "[example_video ''1'' ''v9'']" "''a.mp3''" "''v1''" initial_match_state]
    unfolding l by simp
qed
subsection \<open>The audio fetcher\<close>

text \<open>
  Claim C7, as stated, fails. A response that is not OK and a response whose content type
  is not audio are different conditions and give the same error, so the condition cannot
  be recovered from what the caller receives; and a failure of the encoding surfaces with
  its own error, which is not the message that notes the cross-origin cause.
\<close>

theorem getBase64FromUrl_condition_lost:
  "getBase64FromUrl (Response False 404 (Blob ''audio/mpeg'' (Reader_result ''data:audio/mpeg;base64,AAAA'')))
     = getBase64FromUrl (Response True 200 (Blob ''text/html'' (Reader_result ''data:text/html;base64,AAAA'')))
   \<and> condition_of (Response False 404 (Blob ''audio/mpeg'' (Reader_result ''data:audio/mpeg;base64,AAAA'')))
       = Some Transport_failure
   \<and> condition_of (Response True 200 (Blob ''text/html'' (Reader_result ''data:text/html;base64,AAAA'')))
       = Some Non_audio_content
   \<and> condition_of (Response True 200 (Blob ''audio/mpeg'' (Reader_result ''data:audio/mpeg;base64,'')))
       = Some Encoding_failure
   \<and> getBase64FromUrl (Response True 200 (Blob ''audio/mpeg'' (Reader_result ''data:audio/mpeg;base64,'')))
       = Inl (Error (Msg ''Could not convert file to base64.''))
   \<and> getBase64FromUrl (Response True 200 (Blob ''audio/mpeg'' (Reader_result ''data:audio/mpeg;base64,'')))
       \<noteq> Inl (Error (Msg cors_message))"
  by (simp add: getBase64FromUrl_def COMMA_def cors_message_def)

text \<open>
  Claim C7, amended. For every audio fetch that fails in the transport (the request is
  rejected, the response is not OK, or its body cannot be read) or by a content type that
  is not audio, the error surfaced to the caller is the one fixed user-facing message that
  notes the likely cross-origin cause, and nothing else: the original condition is logged
  and not carried by the error. An encoding failure is a failure too, and an outcome
  without any of the three conditions returns the encoded audio with its type.
\<close>

theorem getBase64FromUrl_single_message:
  "(condition_of world = Some Transport_failure \<or> condition_of world = Some Non_audio_content \<longrightarrow>
      getBase64FromUrl world = Inl (Error (Msg cors_message)))
   \<and> (condition_of world = Some Encoding_failure \<longrightarrow> (\<exists>e. getBase64FromUrl world = Inl e))
   \<and> (condition_of world = None \<longrightarrow> (\<exists>base64 mimeType. getBase64FromUrl world = Inr (base64, mimeType)))"
proof (cases world)
  case (Fetch_rejects e)
  then show ?thesis by (simp add: getBase64FromUrl_def)
next
  case (Response ok status body)
  show ?thesis
  proof (cases body)
    case (Body_rejects e)
    with Response show ?thesis by (simp add: getBase64FromUrl_def)
  next
    case (Blob mimeType reader)
    with Response show ?thesis
      by (cases "read_blob mimeType reader") (auto simp: getBase64FromUrl_def)
  qed
qed

theorem getBase64FromUrl_single_message_witness:
  "getBase64FromUrl (Response False 404 (Body_rejects Thrown_other)) = Inl (Error (Msg cors_message))
   \<and> getBase64FromUrl (Response True 200 (Blob ''video/mp4'' Reader_error)) = Inl (Error (Msg cors_message))"
  using getBase64FromUrl_single_message[of "Response False 404 (Body_rejects Thrown_other)"]
    getBase64FromUrl_single_message[of "Response True 200 (Blob ''video/mp4'' Reader_error)"]
  by simp

subsection \<open>The mapping of scan results\<close>






subsection \<open>The pipeline controller\<close>

lemmas setters = publish_def setStatus_def setTranscriptStates_def setTranscriptCache_def setValue_def

lemma outside_own [simp]:
  "successCount (outside a s) = successCount s"
  "trace (outside a s) = trace s"
  "stopRequest (outside a s) = flag_step a (stopRequest s)"
  by (cases a; simp add: handleStopProcessing_def)+

lemma meanwhile_own [simp]:
  "successCount (meanwhile acts s) = successCount s"
  "trace (meanwhile acts s) = trace s"
  "stopRequest (meanwhile acts s) = flag_after (stopRequest s) acts"
  unfolding meanwhile_def flag_after_def
  by (induction acts arbitrary: s; simp)+

lemma flag_after_Nil [simp]: "flag_after b [] = b"
  by (simp add: flag_after_def)

lemma flag_after_append [simp]: "flag_after b (xs @ ys) = flag_after (flag_after b xs) ys"
  by (simp add: flag_after_def)

lemma setter_stopRequest [simp]:
  "stopRequest (publish e s) = stopRequest s"
  "stopRequest (setStatus st s) = stopRequest s"
  "stopRequest (setTranscriptStates u ts s) = stopRequest s"
  "stopRequest (setTranscriptCache u t s) = stopRequest s"
  by (simp_all add: setters)

lemma process_item_stopRequest:
  "stopRequest (process_item e mp3Map k i n video s)
     = (case getBase64FromUrl (audio e) of
          Inl x \<Rightarrow> flag_after (stopRequest s) (during_fetch e)
        | Inr r \<Rightarrow> flag_after (flag_after (stopRequest s) (during_fetch e)) (during_transcribe e))"
  by (simp add: process_item_def Let_def split: sum.splits prod.splits)

lemma process_item_calm:
  "calm e \<Longrightarrow> \<not> stopRequest s \<Longrightarrow> \<not> stopRequest (process_item e mp3Map k i n video s)"
  by (simp add: process_item_stopRequest calm_def split: sum.splits)

lemma process_item_fetch:
  "filter is_fetch (trace (process_item e mp3Map k i n video s))
     = filter is_fetch (trace s) @ [FetchAudio (js_get mp3Map (webVideoUrl video))]"
  by (simp add: process_item_def Let_def setters split: sum.splits prod.splits)

lemma process_item_delay:
  "filter is_delay (trace (process_item e mp3Map k i n video s)) = filter is_delay (trace s)"
  by (simp add: process_item_def Let_def setters split: sum.splits prod.splits)

lemma process_item_calls:
  "filter is_call (trace (process_item e mp3Map k i n video s))
     = filter is_call (trace s) @ FetchAudio (js_get mp3Map (webVideoUrl video))
         # (case getBase64FromUrl (audio e) of Inl error \<Rightarrow> [] | Inr (base64, mimeType) \<Rightarrow> [Transcribe base64 mimeType])"
  by (simp add: process_item_def Let_def setters split: sum.splits prod.splits)

lemma process_item_successes:
  "length (filter is_success (trace (process_item e mp3Map k i n video s))) - length (filter is_success (trace s))
     = successCount (process_item e mp3Map k i n video s) - successCount s"
  "length (filter is_success (trace s)) \<le> length (filter is_success (trace (process_item e mp3Map k i n video s)))"
  "successCount s \<le> successCount (process_item e mp3Map k i n video s)"
  "successCount (process_item e mp3Map k i n video s)
     = successCount s + (case attempt_result e k of Inl x \<Rightarrow> 0 | Inr t \<Rightarrow> 1)"
  by (simp_all add: process_item_def Let_def setters attempt_result_def split: sum.splits prod.splits)

lemma delay_fields [simp]:
  "successCount (inter_call_delay e i n s) = successCount s"
  "filter is_fetch (trace (inter_call_delay e i n s)) = filter is_fetch (trace s)"
  "filter is_call (trace (inter_call_delay e i n s)) = filter is_call (trace s)"
  "filter is_success (trace (inter_call_delay e i n s)) = filter is_success (trace s)"
  "filter (is_error_for u) (trace (inter_call_delay e i n s)) = filter (is_error_for u) (trace s)"
  "filter (is_cache_write_for u) (trace (inter_call_delay e i n s)) = filter (is_cache_write_for u) (trace s)"
  by (simp_all add: inter_call_delay_def publish_def)

lemma delay_stopRequest:
  "stopRequest (inter_call_delay e i n s)
     = (if i < n - 1 \<and> \<not> stopRequest s then flag_after False (during_delay e) else stopRequest s)"
  by (simp add: inter_call_delay_def publish_def)

lemma delay_delays:
  "filter is_delay (trace (inter_call_delay e i n s))
     = filter is_delay (trace s) @ (if i < n - 1 \<and> \<not> stopRequest s then [Delay API_CALL_DELAY_MS] else [])"
  by (simp add: inter_call_delay_def publish_def)

lemma iteration_calm:
  "calm (env i) \<Longrightarrow> \<not> stopRequest s \<Longrightarrow> \<not> stopRequest (iteration env mp3Map k work i s)"
  using process_item_calm[of "env i" s mp3Map k i "length work" "work ! i"]
  by (simp add: iteration_def delay_stopRequest calm_def)

lemma iteration_fetch:
  "filter is_fetch (trace (iteration env mp3Map k work i s))
     = filter is_fetch (trace s) @ [FetchAudio (js_get mp3Map (webVideoUrl (work ! i)))]"
  by (simp add: iteration_def process_item_fetch)

lemma iteration_calls:
  "filter is_call (trace (iteration env mp3Map k work i s))
     = filter is_call (trace s) @ calls_of env mp3Map work i"
  by (simp add: iteration_def process_item_calls calls_of_def)

lemma iteration_delays:
  "filter is_delay (trace (iteration env mp3Map k work i s))
     = filter is_delay (trace s)
        @ (if i < length work - 1
              \<and> \<not> stopRequest (process_item (env i) mp3Map k i (length work) (work ! i) s)
           then [Delay API_CALL_DELAY_MS] else [])"
  by (simp add: iteration_def delay_delays process_item_delay)

lemma iteration_successCount:
  "successCount (iteration env mp3Map k work i s)
     = successCount s + (if isl (attempt_result (env i) k) then 0 else 1)"
  by (simp add: iteration_def process_item_successes(4) split: sum.splits)

lemma iteration_successes:
  "length (filter is_success (trace (iteration env mp3Map k work i s)))
     = length (filter is_success (trace s)) + (if isl (attempt_result (env i) k) then 0 else 1)"
  using process_item_successes(1,2,3)[where s=s and e="env i" and ?mp3Map=mp3Map and k=k and i=i
      and n="length work" and video="work ! i"]
    iteration_successCount[of env mp3Map k work i s]
  by (simp add: iteration_def)

lemma iterate_same [simp]: "iterate env mp3Map k work i i s = s"
  by (simp add: iterate_def)

lemma iterate_Suc:
  "i \<le> m \<Longrightarrow> iterate env mp3Map k work i (Suc m) s
     = iteration env mp3Map k work m (iterate env mp3Map k work i m s)"
  by (simp add: iterate_def)

lemma loop_unroll:
  assumes "i \<le> m" and "m \<le> length work"
    and "\<forall>j. i \<le> j \<and> j < m \<longrightarrow> \<not> stopRequest (iterate env mp3Map k work i j s)"
  shows "loop env mp3Map k work i s = loop env mp3Map k work m (iterate env mp3Map k work i m s)"
  using assms
proof (induction m rule: dec_induct)
  case base
  then show ?case by simp
next
  case (step n)
  then have "loop env mp3Map k work i s = loop env mp3Map k work n (iterate env mp3Map k work i n s)"
    by simp
  also have "\<dots> = loop env mp3Map k work (Suc n) (iterate env mp3Map k work i (Suc n) s)"
    using step.prems step.hyps by (subst loop.simps) (simp add: iterate_Suc)
  finally show ?case .
qed

lemma loop_done: "length work \<le> i \<Longrightarrow> loop env mp3Map k work i s = s"
  by (subst loop.simps) simp

lemma loop_break:
  "i < length work \<Longrightarrow> stopRequest s \<Longrightarrow>
   loop env mp3Map k work i s = setStatus (Stopped_by_user (successCount s)) s"
  by (subst loop.simps) simp

lemma loop_invariant:
  assumes "I s"
    and "\<And>j s. i \<le> j \<Longrightarrow> j < length work \<Longrightarrow> I s \<Longrightarrow> \<not> stopRequest s \<Longrightarrow>
           I (iteration env mp3Map k work j s)"
    and "\<And>s c. I s \<Longrightarrow> I (setStatus (Stopped_by_user c) s)"
  shows "I (loop env mp3Map k work i s)"
  using assms
proof (induction env mp3Map k work i s rule: loop.induct)
  case (1 env mp3Map k work i s)
  show ?case
  proof (cases "i < length work")
    case False
    then show ?thesis using "1.prems"(1) by (simp add: loop_done)
  next
    case True
    show ?thesis
    proof (cases "stopRequest s")
      case True
      with \<open>i < length work\<close> "1.prems" show ?thesis by (simp add: loop_break)
    next
      case False
      have "I (loop env mp3Map k work (i + 1) (iteration env mp3Map k work i s))"
      proof (rule "1.IH"[OF True False])
        show "I (iteration env mp3Map k work i s)"
          using "1.prems"(2)[of i s] True False "1.prems"(1) by simp
      next
        fix j s' assume "i + 1 \<le> j" "j < length work" "I s'" "\<not> stopRequest s'"
        then show "I (iteration env mp3Map k work j s')" using "1.prems"(2)[of j s'] by simp
      next
        fix s' c assume "I s'"
        then show "I (setStatus (Stopped_by_user c) s')" by (rule "1.prems"(3))
      qed
      then show ?thesis using True False by (subst loop.simps) simp
    qed
  qed
qed

lemma iterate_calm:
  assumes "i \<le> m" and "\<not> stopRequest s" and "\<forall>j. i \<le> j \<and> j < m \<longrightarrow> calm (env j)"
  shows "\<not> stopRequest (iterate env mp3Map k work i m s)"
  using assms
proof (induction m rule: dec_induct)
  case base
  then show ?case by simp
next
  case (step n)
  then show ?case by (simp add: iterate_Suc iteration_calm)
qed

lemma iterate_fetch:
  assumes "i \<le> m"
  shows "filter is_fetch (trace (iterate env mp3Map k work i m s))
     = filter is_fetch (trace s) @ map (\<lambda>j. FetchAudio (js_get mp3Map (webVideoUrl (work ! j)))) [i..<m]"
  using assms
proof (induction m rule: dec_induct)
  case base
  then show ?case by simp
next
  case (step n)
  then show ?case by (simp add: iterate_Suc iteration_fetch)
qed

lemma iterate_calls:
  assumes "i \<le> m"
  shows "filter is_call (trace (iterate env mp3Map k work i m s))
     = filter is_call (trace s) @ concat (map (calls_of env mp3Map work) [i..<m])"
  using assms
proof (induction m rule: dec_induct)
  case base
  then show ?case by simp
next
  case (step n)
  then show ?case by (simp add: iterate_Suc iteration_calls)
qed

lemma iterate_successCount:
  assumes "i \<le> m"
  shows "successCount (iterate env mp3Map k work i m s)
     = successCount s + length (filter (\<lambda>j. \<not> isl (attempt_result (env j) k)) [i..<m])"
  using assms
proof (induction m rule: dec_induct)
  case base
  then show ?case by simp
next
  case (step n)
  then show ?case by (simp add: iterate_Suc iteration_successCount)
qed

lemma iterate_successes:
  assumes "i \<le> m"
  shows "length (filter is_success (trace (iterate env mp3Map k work i m s)))
     = length (filter is_success (trace s)) + length (filter (\<lambda>j. \<not> isl (attempt_result (env j) k)) [i..<m])"
  using assms
proof (induction m rule: dec_induct)
  case base
  then show ?case by simp
next
  case (step n)
  then show ?case by (simp add: iterate_Suc iteration_successes)
qed

text \<open>
  The delays of the first iterations, when the stop signal is clear at each of their
  tests before the delay.
\<close>

lemma iterate_delays:
  assumes "i \<le> m" and "m \<le> length work"
    and "\<forall>j. i \<le> j \<and> j < m \<longrightarrow>
           \<not> stopRequest (process_item (env j) mp3Map k j (length work) (work ! j)
                (iterate env mp3Map k work i j s))"
  shows "filter is_delay (trace (iterate env mp3Map k work i m s))
     = filter is_delay (trace s) @ replicate (min m (length work - 1) - i) (Delay API_CALL_DELAY_MS)"
  using assms
proof (induction m rule: dec_induct)
  case base
  then show ?case by simp
next
  case (step n)
  have c: "\<not> stopRequest (process_item (env n) mp3Map k n (length work) (work ! n)
                (iterate env mp3Map k work i n s))"
    using step.prems(2) step.hyps by simp
  have ih: "filter is_delay (trace (iterate env mp3Map k work i n s))
     = filter is_delay (trace s) @ replicate (min n (length work - 1) - i) (Delay API_CALL_DELAY_MS)"
    using step by simp
  let ?D = "Delay API_CALL_DELAY_MS"
  have e: "replicate (min n (length work - 1) - i) ?D @ (if n < length work - 1 then [?D] else [])
      = replicate (min (Suc n) (length work - 1) - i) ?D"
  proof (cases "n < length work - 1")
    case True
    then have "min (Suc n) (length work - 1) - i = Suc (min n (length work - 1) - i)"
      using step.hyps by simp
    with True show ?thesis by (simp only: if_True replicate_append_same replicate_Suc)
  next
    case False
    then have "min (Suc n) (length work - 1) - i = min n (length work - 1) - i"
      by simp
    with False show ?thesis by (simp only: if_False append_Nil2)
  qed
  have "filter is_delay (trace (iterate env mp3Map k work i (Suc n) s))
      = filter is_delay (trace (iterate env mp3Map k work i n s))
          @ (if n < length work - 1 then [?D] else [])"
    unfolding iterate_Suc[OF step.hyps(1)] iteration_delays using c by simp
  also have "\<dots> = filter is_delay (trace s)
          @ (replicate (min n (length work - 1) - i) ?D @ (if n < length work - 1 then [?D] else []))"
    unfolding ih by (simp only: append_assoc)
  finally show ?case unfolding e .
qed


lemma run_unfold:
  "runTranscription env videos mp3Map k s =
     (let s1 = loop env mp3Map k (work_of videos mp3Map s) 0 (run_start s)
      in (if \<not> stopRequest s1 then setStatus (Completed (successCount s1)) s1 else s1)\<lparr>isProcessing := False\<rparr>)"
  by (simp add: runTranscription_def work_of_def Let_def)

lemma run_start_fields [simp]:
  "stopRequest (run_start s) = False"
  "successCount (run_start s) = 0"
  "trace (run_start s) = []"
  "cache (run_start s) = cache s"
  "transcriptStates (run_start s) = transcriptStates s"
  by (simp_all add: run_start_def)

lemmas run_eval = runTranscription_def run_start_def videosToTranscribe_def loop.simps iteration_def
  process_item_def inter_call_delay_def setters Let_def initial_run_state_def meanwhile_def
  example_video_def js_get_def

lemma ok_env_result: "attempt_result (ok_env t) ''key'' = (if t = [] then Inl (Error Msg_gemini_no_transcript) else Inr t)"
  by (simp add: attempt_result_def ok_env_def getBase64FromUrl_def transcribeAudioWithGemini_def COMMA_def)

lemma down_env_result: "attempt_result down_env k = Inl (Error (Msg cors_message))"
  by (simp add: attempt_result_def down_env_def getBase64FromUrl_def)

lemma ok_fetch:
  "getBase64FromUrl (Response True 200 (Blob ''audio/mpeg'' (Reader_result ''data:audio/mpeg;base64,AAAA'')))
     = Inr (''AAAA'', ''audio/mpeg'')"
  by (simp add: getBase64FromUrl_def COMMA_def)




subsection \<open>Stop requests\<close>

lemma at_top_zero [simp]: "at_top env videos mp3Map k s 0 = run_start s"
  by (simp add: at_top_def)

lemma at_top_Suc:
  "at_top env videos mp3Map k s (Suc j)
     = inter_call_delay (env j) j (length (work_of videos mp3Map s)) (before_delay env videos mp3Map k s j)"
  by (simp add: at_top_def before_delay_def iterate_Suc iteration_def)

text \<open>When the signal is set at the test before the delay, it is set at the next top.\<close>

lemma stop_before_delay_kept:
  "stopRequest (before_delay env videos mp3Map k s j) \<Longrightarrow> stopRequest (at_top env videos mp3Map k s (Suc j))"
  by (simp add: at_top_Suc delay_stopRequest)

lemma map_nth_take: "k \<le> length xs \<Longrightarrow> map (\<lambda>j. f (xs ! j)) [0..<k] = map f (take k xs)"
proof -
  assume k: "k \<le> length xs"
  have "map f (take k xs) = map f (map ((!) (take k xs)) [0..<length (take k xs)])"
    by (simp only: map_nth)
  also have "\<dots> = map (\<lambda>j. f (take k xs ! j)) [0..<k]" using k by (simp add: comp_def)
  also have "\<dots> = map (\<lambda>j. f (xs ! j)) [0..<k]" by simp
  finally show ?thesis by simp
qed

lemma run_reset:
  "runTranscription env videos mp3Map k (s\<lparr>stopRequest := b\<rparr>) = runTranscription env videos mp3Map k s"
  by (simp add: runTranscription_def run_start_def)

text \<open>
  Claim C2. A run is one invocation of \<open>runTranscription\<close>; while it is suspended, the
  stop button, the cleanup of the effect and other invocations may set and clear the
  stop signal and write the shared state. Let the run find the signal set at the top of
  the iteration for the item of index \<open>k\<close> of its work-set, counted from 0, and clear at
  the tops before. Then the run ends there: its state is the state at that top with the
  summary of the stop published, which is its last action, so that nothing is fetched
  and no delay is awaited after the signal is observed. Its fetches are those of the
  first \<open>k\<close> items, in order, and no item from index \<open>k\<close> on is attempted. The delay of
  an iteration is awaited only if the signal is clear when it is tested before the
  delay: there are \<open>k - 1\<close> delays for the iterations before the last, and one more
  exactly when the signal was still clear at the test after the last attempt. The summary
  counts the successes among the first \<open>k\<close> items. The signal is clear at the first top,
  whatever it was before the run: the run resets it, and so \<open>k\<close> is not 0.
\<close>

theorem stop_observed_before_item:
  assumes "k < length (work_of videos mp3Map s)"
    and "\<forall>j < k. \<not> stopRequest (at_top env videos mp3Map key s j)"
    and "stopRequest (at_top env videos mp3Map key s k)"
  shows "runTranscription env videos mp3Map key s
       = (setStatus (Stopped_by_user (successCount (at_top env videos mp3Map key s k)))
            (at_top env videos mp3Map key s k))\<lparr>isProcessing := False\<rparr>
   \<and> trace (runTranscription env videos mp3Map key s)
       = trace (at_top env videos mp3Map key s k)
           @ [SetStatus (Stopped_by_user (length (filter (\<lambda>i. \<not> isl (attempt_result (env i) key)) [0..<k])))]
   \<and> filter is_fetch (trace (runTranscription env videos mp3Map key s))
       = map (\<lambda>v. FetchAudio (js_get mp3Map (webVideoUrl v))) (take k (work_of videos mp3Map s))
   \<and> filter is_call (trace (runTranscription env videos mp3Map key s))
       = concat (map (calls_of env mp3Map (work_of videos mp3Map s)) [0..<k])
   \<and> filter is_delay (trace (runTranscription env videos mp3Map key s))
       = replicate (k - 1) (Delay 4000)
           @ (if stopRequest (before_delay env videos mp3Map key s (k - 1)) then [] else [Delay 4000])
   \<and> status (runTranscription env videos mp3Map key s)
       = Stopped_by_user (length (filter (\<lambda>i. \<not> isl (attempt_result (env i) key)) [0..<k]))
   \<and> length (filter is_success (trace (runTranscription env videos mp3Map key s)))
       = length (filter (\<lambda>i. \<not> isl (attempt_result (env i) key)) [0..<k])
   \<and> 0 < k
   \<and> \<not> stopRequest (at_top env videos mp3Map key s 0)
   \<and> runTranscription env videos mp3Map key (s\<lparr>stopRequest := b\<rparr>)
       = runTranscription env videos mp3Map key s"
proof -
  let ?work = "work_of videos mp3Map s"
  let ?n = "length ?work"
  let ?s0 = "run_start s"
  let ?top = "at_top env videos mp3Map key s"
  let ?bd = "before_delay env videos mp3Map key s"
  let ?c = "length (filter (\<lambda>i. \<not> isl (attempt_result (env i) key)) [0..<k])"
  let ?r = "runTranscription env videos mp3Map key s"
  let ?D = "Delay API_CALL_DELAY_MS"
  have z: "\<not> stopRequest (?top 0)" by simp
  have kpos: "0 < k"
  proof (rule ccontr)
    assume "\<not> 0 < k"
    then have "k = 0" by simp
    with assms(3) z show False by simp
  qed
  have tk: "?top k = iterate env mp3Map key ?work 0 k ?s0"
    by (simp add: at_top_def)
  have ns: "\<forall>j. 0 \<le> j \<and> j < k \<longrightarrow> \<not> stopRequest (iterate env mp3Map key ?work 0 j ?s0)"
    using assms(2) by (simp add: at_top_def)
  have "loop env mp3Map key ?work 0 ?s0 = loop env mp3Map key ?work k (iterate env mp3Map key ?work 0 k ?s0)"
    using assms(1) ns by (intro loop_unroll) simp_all
  also have "\<dots> = setStatus (Stopped_by_user (successCount (?top k))) (?top k)"
    unfolding tk[symmetric] using assms(1) assms(3) by (rule loop_break)
  finally have l: "loop env mp3Map key ?work 0 ?s0
      = setStatus (Stopped_by_user (successCount (?top k))) (?top k)" .
  have r: "?r = (setStatus (Stopped_by_user (successCount (?top k))) (?top k))\<lparr>isProcessing := False\<rparr>"
    unfolding run_unfold l using assms(3) by (simp add: Let_def)
  have sc: "successCount (?top k) = ?c"
    unfolding tk by (simp add: iterate_successCount)
  have t: "trace ?r = trace (?top k) @ [SetStatus (Stopped_by_user ?c)]"
    unfolding r sc by (simp add: setters)
  have f: "filter is_fetch (trace ?r) = map (\<lambda>v. FetchAudio (js_get mp3Map (webVideoUrl v))) (take k ?work)"
    unfolding t tk using assms(1) map_nth_take[of k ?work "\<lambda>v. FetchAudio (js_get mp3Map (webVideoUrl v))"]
    by (simp add: iterate_fetch)
  have ca: "filter is_call (trace ?r) = concat (map (calls_of env mp3Map ?work) [0..<k])"
    unfolding t tk by (simp add: iterate_calls)
  have su: "length (filter is_success (trace ?r)) = ?c"
    unfolding t tk by (simp add: iterate_successes)
  have st: "status ?r = Stopped_by_user ?c"
    unfolding r sc by (simp add: setters)
  have bd: "\<forall>j. 0 \<le> j \<and> j < k - 1 \<longrightarrow>
      \<not> stopRequest (process_item (env j) mp3Map key j ?n (?work ! j) (iterate env mp3Map key ?work 0 j ?s0))"
  proof (intro allI impI)
    fix j assume j: "0 \<le> j \<and> j < k - 1"
    then have "Suc j < k" by arith
    then have "\<not> stopRequest (?top (Suc j))" using assms(2) by blast
    then have "\<not> stopRequest (?bd j)" using stop_before_delay_kept[of env videos mp3Map key s j] by blast
    then show "\<not> stopRequest (process_item (env j) mp3Map key j ?n (?work ! j) (iterate env mp3Map key ?work 0 j ?s0))"
      by (simp add: before_delay_def at_top_def)
  qed
  have k1: "k - 1 \<le> ?n" and k2: "k - 1 < ?n - 1" and k3: "Suc (k - 1) = k"
    using assms(1) kpos by arith+
  have d1: "filter is_delay (trace (iterate env mp3Map key ?work 0 (k - 1) ?s0)) = replicate (k - 1) ?D"
    using iterate_delays[of 0 "k - 1" ?work env mp3Map key ?s0] bd k1 k2 by simp
  have "iterate env mp3Map key ?work 0 k ?s0
      = iteration env mp3Map key ?work (k - 1) (iterate env mp3Map key ?work 0 (k - 1) ?s0)"
    using iterate_Suc[of 0 "k - 1" env mp3Map key ?work ?s0] k3 by simp
  then have "filter is_delay (trace (?top k))
      = replicate (k - 1) ?D @ (if stopRequest (?bd (k - 1)) then [] else [?D])"
    unfolding tk using d1 k2 by (simp add: iteration_delays before_delay_def at_top_def)
  then have de: "filter is_delay (trace ?r)
      = replicate (k - 1) (Delay 4000) @ (if stopRequest (?bd (k - 1)) then [] else [Delay 4000])"
    unfolding t by (simp add: API_CALL_DELAY_MS_def)
  have rs: "runTranscription env videos mp3Map key (s\<lparr>stopRequest := b\<rparr>) = ?r"
    by (rule run_reset)
  show ?thesis
    by (intro conjI) (rule r t f ca de st su kpos z rs)+
qed

lemma three_work: "work_of three_videos three_urls (initial_run_state Map.empty) = three_videos"
  by (simp add: work_of_def videosToTranscribe_def initial_run_state_def three_videos_def three_urls_def
      example_video_def js_get_def object_prototype_names_def)

lemma stopping_tops:
  "\<not> stopRequest (at_top stopping_env three_videos three_urls ''key'' (initial_run_state Map.empty) 0)"
  "stopRequest (at_top stopping_env three_videos three_urls ''key'' (initial_run_state Map.empty) 1)"
  "\<not> stopRequest (before_delay stopping_env three_videos three_urls ''key'' (initial_run_state Map.empty) 0)"
proof -
  let ?s = "initial_run_state Map.empty"
  show "\<not> stopRequest (at_top stopping_env three_videos three_urls ''key'' ?s 0)" by simp
  have c: "getBase64FromUrl (audio (stopping_env 0)) = Inr (''AAAA'', ''audio/mpeg'')"
    by (simp add: stopping_env_def ok_env_def ok_fetch)
  show b: "\<not> stopRequest (before_delay stopping_env three_videos three_urls ''key'' ?s 0)"
    unfolding before_delay_def process_item_stopRequest c
    by (simp add: stopping_env_def ok_env_def flag_after_def)
  have "0 < length (work_of three_videos three_urls ?s) - 1"
    unfolding three_work by (simp add: three_videos_def)
  then show "stopRequest (at_top stopping_env three_videos three_urls ''key'' ?s 1)"
    using b unfolding One_nat_def at_top_Suc delay_stopRequest
    by (simp add: stopping_env_def ok_env_def flag_after_def)
qed

theorem stop_observed_before_item_witness:
  "\<not> stopRequest (at_top stopping_env three_videos three_urls ''key'' (initial_run_state Map.empty) 0)
   \<and> stopRequest (at_top stopping_env three_videos three_urls ''key'' (initial_run_state Map.empty) 1)
   \<and> filter is_fetch (trace (runTranscription stopping_env three_videos three_urls ''key'' (initial_run_state Map.empty)))
       = [FetchAudio (Own ''a.mp3'')]
   \<and> filter is_delay (trace (runTranscription stopping_env three_videos three_urls ''key'' (initial_run_state Map.empty)))
       = [Delay 4000]
   \<and> status (runTranscription stopping_env three_videos three_urls ''key'' (initial_run_state Map.empty))
       = Stopped_by_user 1
   \<and> last (trace (runTranscription stopping_env three_videos three_urls ''key'' (initial_run_state Map.empty)))
       = SetStatus (Stopped_by_user 1)"
proof -
  let ?s = "initial_run_state Map.empty"
  let ?r = "runTranscription stopping_env three_videos three_urls ''key'' ?s"
  have a: "1 < length (work_of three_videos three_urls ?s)"
    unfolding three_work by (simp add: three_videos_def)
  have b: "\<forall>j < 1. \<not> stopRequest (at_top stopping_env three_videos three_urls ''key'' ?s j)"
    using stopping_tops(1) by simp
  note t = stop_observed_before_item[OF a b stopping_tops(2), of False]
  have re: "attempt_result (stopping_env 0) ''key'' = Inr ''hello''"
    by (simp add: attempt_result_def stopping_env_def ok_env_def ok_fetch transcribeAudioWithGemini_def)
  have f: "filter is_fetch (trace ?r) = [FetchAudio (Own ''a.mp3'')]"
    using conjunct1[OF conjunct2[OF conjunct2[OF t]]] unfolding three_work
    by (simp add: three_videos_def three_urls_def example_video_def js_get_def)
  have d: "filter is_delay (trace ?r) = [Delay 4000]"
    using conjunct1[OF conjunct2[OF conjunct2[OF conjunct2[OF conjunct2[OF t]]]]] stopping_tops(3)
    by simp
  have st: "status ?r = Stopped_by_user 1"
    using conjunct1[OF conjunct2[OF conjunct2[OF conjunct2[OF conjunct2[OF conjunct2[OF t]]]]]]
    by (simp add: re)
  have la: "last (trace ?r) = SetStatus (Stopped_by_user 1)"
    using conjunct1[OF conjunct2[OF t]] by (simp add: re)
  show ?thesis
    by (intro conjI) (rule stopping_tops(1) stopping_tops(2) f d st la)+
qed

subsection \<open>The cache during a run\<close>

lemma truthy_the: "truthy x \<Longrightarrow> the x \<noteq> []"
  by (cases x) simp_all

lemma attempt_result_truthy: "attempt_result e k = Inr t \<Longrightarrow> t \<noteq> []"
  by (auto simp: attempt_result_def transcribeAudioWithGemini_def dest: truthy_the
      split: sum.splits prod.splits if_splits gemini_outcome.splits)

text \<open>
  A property of the state that every step of an attempt keeps is kept by the attempt, by
  the iteration and by the loop.
\<close>

lemma process_item_preserves:
  assumes "P s"
    and "\<And>x s. P s \<Longrightarrow> P (publish x s)"
    and "\<And>st s. P s \<Longrightarrow> P (setStatus st s)"
    and "\<And>ts s. P s \<Longrightarrow> P (setTranscriptStates (webVideoUrl video) ts s)"
    and "\<And>t s. P s \<Longrightarrow> P (setTranscriptCache (webVideoUrl video) t s)"
    and "\<And>s. P s \<Longrightarrow> P (meanwhile (during_fetch e) s)"
    and "\<And>s. P s \<Longrightarrow> P (meanwhile (during_transcribe e) s)"
    and "\<And>s c. P s \<Longrightarrow> P (s\<lparr>successCount := c\<rparr>)"
  shows "P (process_item e mp3Map k i n video s)"
  unfolding process_item_def Let_def
  by (simp add: assms split: sum.splits prod.splits)

lemma iteration_preserves:
  assumes "P s"
    and "\<And>x s. P s \<Longrightarrow> P (publish x s)"
    and "\<And>st s. P s \<Longrightarrow> P (setStatus st s)"
    and "\<And>ts s. P s \<Longrightarrow> P (setTranscriptStates (webVideoUrl (work ! i)) ts s)"
    and "\<And>t s. P s \<Longrightarrow> P (setTranscriptCache (webVideoUrl (work ! i)) t s)"
    and "\<And>acts s. set acts \<subseteq> set (actions_of (env i)) \<Longrightarrow> P s \<Longrightarrow> P (meanwhile acts s)"
    and "\<And>s c. P s \<Longrightarrow> P (s\<lparr>successCount := c\<rparr>)"
  shows "P (iteration env mp3Map k work i s)"
proof -
  have "P (process_item (env i) mp3Map k i (length work) (work ! i) s)"
    by (rule process_item_preserves[where P=P]) (auto intro: assms simp: actions_of_def)
  then show ?thesis
    unfolding iteration_def inter_call_delay_def
    by (auto intro!: assms(2) assms(6) simp: actions_of_def)
qed

text \<open>What the outside actions leave of the cache and of the live statuses.\<close>

lemma meanwhile_Nil [simp]: "meanwhile [] s = s"
  by (simp add: meanwhile_def)

lemma meanwhile_Cons [simp]: "meanwhile (a # acts) s = meanwhile acts (outside a s)"
  by (simp add: meanwhile_def)

lemma outside_dom:
  "dom (storedValue (cache s)) \<subseteq> dom (storedValue (cache (outside a s)))"
  by (cases a) (auto simp: handleStopProcessing_def setValue_def Let_def)

lemma outside_synced:
  "persisted (cache s) = storedValue (cache s) \<Longrightarrow>
   persisted (cache (outside a s)) = storedValue (cache (outside a s))"
  by (cases a) (auto simp: handleStopProcessing_def setValue_def Let_def)

lemma outside_entry:
  "\<not> caches_under u a \<Longrightarrow> storedValue (cache (outside a s)) u = storedValue (cache s) u"
  by (cases a) (auto simp: handleStopProcessing_def setValue_def Let_def)

lemma outside_state:
  "\<not> touches u a \<Longrightarrow> transcriptStates (outside a s) u = transcriptStates s u"
  by (cases a) (auto simp: handleStopProcessing_def)

lemma touches_caches: "caches_under u a \<Longrightarrow> touches u a"
  by (cases a) auto

lemma meanwhile_dom:
  "dom c \<subseteq> dom (storedValue (cache s)) \<Longrightarrow> dom c \<subseteq> dom (storedValue (cache (meanwhile acts s)))"
proof (induction acts arbitrary: s)
  case Nil
  then show ?case by simp
next
  case (Cons a acts)
  have "dom c \<subseteq> dom (storedValue (cache (outside a s)))"
    using Cons.prems outside_dom[of s a] by blast
  then show ?case using Cons.IH by simp
qed

lemma meanwhile_synced:
  "persisted (cache s) = storedValue (cache s) \<Longrightarrow>
   persisted (cache (meanwhile acts s)) = storedValue (cache (meanwhile acts s))"
  by (induction acts arbitrary: s) (simp_all add: outside_synced)

lemma meanwhile_entry:
  "\<forall>a \<in> set acts. \<not> caches_under u a \<Longrightarrow>
   storedValue (cache (meanwhile acts s)) u = storedValue (cache s) u"
  by (induction acts arbitrary: s) (simp_all add: outside_entry)

lemma meanwhile_state:
  "\<forall>a \<in> set acts. \<not> touches u a \<Longrightarrow> transcriptStates (meanwhile acts s) u = transcriptStates s u"
  by (induction acts arbitrary: s) (simp_all add: outside_state)

lemma filter_empty_subset:
  "filter P xs = [] \<Longrightarrow> set ys \<subseteq> set xs \<Longrightarrow> \<forall>a \<in> set ys. \<not> P a"
  by (auto simp: filter_empty_conv)

lemma process_item_cache_writes:
  "filter (is_cache_write_for u) (trace (process_item e mp3Map k i n video s))
     = filter (is_cache_write_for u) (trace s)
        @ (case attempt_result e k of
             Inl x \<Rightarrow> []
           | Inr t \<Rightarrow> if webVideoUrl video = u then [SetTranscriptCache u t] else [])"
  by (simp add: process_item_def Let_def setters attempt_result_def split: sum.splits prod.splits)

lemma process_item_errors:
  "filter (is_error_for u) (trace (process_item e mp3Map k i n video s))
     = filter (is_error_for u) (trace s)
        @ (case attempt_result e k of
             Inl x \<Rightarrow> if webVideoUrl video = u
                      then [SetTranscriptState u \<lparr>state_status = St_error, state_text = Text_error (error_message x)\<rparr>]
                      else []
           | Inr t \<Rightarrow> [])"
  by (simp add: process_item_def Let_def setters attempt_result_def split: sum.splits prod.splits)

lemma iteration_cache_writes:
  "filter (is_cache_write_for u) (trace (iteration env mp3Map k work i s))
     = filter (is_cache_write_for u) (trace s)
        @ (case attempt_result (env i) k of
             Inl x \<Rightarrow> []
           | Inr t \<Rightarrow> if webVideoUrl (work ! i) = u then [SetTranscriptCache u t] else [])"
  by (simp add: iteration_def process_item_cache_writes)

lemma iteration_errors:
  "filter (is_error_for u) (trace (iteration env mp3Map k work i s))
     = filter (is_error_for u) (trace s)
        @ (case attempt_result (env i) k of
             Inl x \<Rightarrow> if webVideoUrl (work ! i) = u
                      then [SetTranscriptState u \<lparr>state_status = St_error, state_text = Text_error (error_message x)\<rparr>]
                      else []
           | Inr t \<Rightarrow> [])"
  by (simp add: iteration_def process_item_errors)

lemma break_fields [simp]:
  "cache (setStatus st s) = cache s"
  "transcriptStates (setStatus st s) = transcriptStates s"
  "filter (is_cache_write_for u) (trace (setStatus st s)) = filter (is_cache_write_for u) (trace s)"
  "filter (is_error_for u) (trace (setStatus st s)) = filter (is_error_for u) (trace s)"
  by (simp_all add: setters)

text \<open>The own trace of the loop holds no cache write and no error state for a URL that
  is not among the items from index \<open>i\<close> on.\<close>

lemma loop_own_trace:
  assumes "u \<notin> webVideoUrl ` set (drop i work)"
  shows "filter (is_cache_write_for u) (trace (loop env mp3Map k work i s)) = filter (is_cache_write_for u) (trace s)
    \<and> filter (is_error_for u) (trace (loop env mp3Map k work i s)) = filter (is_error_for u) (trace s)"
proof (rule loop_invariant[where I="\<lambda>s'. filter (is_cache_write_for u) (trace s') = filter (is_cache_write_for u) (trace s)
    \<and> filter (is_error_for u) (trace s') = filter (is_error_for u) (trace s)"])
  show "filter (is_cache_write_for u) (trace s) = filter (is_cache_write_for u) (trace s)
    \<and> filter (is_error_for u) (trace s) = filter (is_error_for u) (trace s)" by simp
next
  fix j and s' :: run_state assume j: "i \<le> j" "j < length work"
    and u: "filter (is_cache_write_for u) (trace s') = filter (is_cache_write_for u) (trace s)
      \<and> filter (is_error_for u) (trace s') = filter (is_error_for u) (trace s)"
  have "drop i work ! (j - i) = work ! j" using j by simp
  moreover have "j - i < length (drop i work)" using j by simp
  ultimately have "work ! j \<in> set (drop i work)" by (metis nth_mem)
  then have "webVideoUrl (work ! j) \<noteq> u" using assms by auto
  then show "filter (is_cache_write_for u) (trace (iteration env mp3Map k work j s')) = filter (is_cache_write_for u) (trace s)
    \<and> filter (is_error_for u) (trace (iteration env mp3Map k work j s')) = filter (is_error_for u) (trace s)"
    using u by (simp add: iteration_cache_writes iteration_errors split: sum.splits)
next
  fix s' :: run_state and c
  assume "filter (is_cache_write_for u) (trace s') = filter (is_cache_write_for u) (trace s)
      \<and> filter (is_error_for u) (trace s') = filter (is_error_for u) (trace s)"
  then show "filter (is_cache_write_for u) (trace (setStatus (Stopped_by_user c) s')) = filter (is_cache_write_for u) (trace s)
      \<and> filter (is_error_for u) (trace (setStatus (Stopped_by_user c) s')) = filter (is_error_for u) (trace s)"
    by simp
qed

text \<open>The keys of the cache stay, and the stored copy stays equal to the state.\<close>

lemma loop_dom:
  assumes "dom c \<subseteq> dom (storedValue (cache s))"
  shows "dom c \<subseteq> dom (storedValue (cache (loop env mp3Map k work i s)))"
proof (rule loop_invariant[where I="\<lambda>s'. dom c \<subseteq> dom (storedValue (cache s'))"])
  show "dom c \<subseteq> dom (storedValue (cache s))" by (rule assms)
next
  fix j and s' :: run_state assume "dom c \<subseteq> dom (storedValue (cache s'))"
  then show "dom c \<subseteq> dom (storedValue (cache (iteration env mp3Map k work j s')))"
    by (rule iteration_preserves[where P="\<lambda>s'. dom c \<subseteq> dom (storedValue (cache s'))"])
       (auto simp: setters Let_def meanwhile_dom)
next
  fix s' :: run_state and c' assume "dom c \<subseteq> dom (storedValue (cache s'))"
  then show "dom c \<subseteq> dom (storedValue (cache (setStatus (Stopped_by_user c') s')))" by simp
qed

lemma loop_synced:
  assumes "persisted (cache s) = storedValue (cache s)"
  shows "persisted (cache (loop env mp3Map k work i s)) = storedValue (cache (loop env mp3Map k work i s))"
proof (rule loop_invariant[where I="\<lambda>s'. persisted (cache s') = storedValue (cache s')"])
  show "persisted (cache s) = storedValue (cache s)" by (rule assms)
next
  fix j and s' :: run_state assume "persisted (cache s') = storedValue (cache s')"
  then show "persisted (cache (iteration env mp3Map k work j s')) = storedValue (cache (iteration env mp3Map k work j s'))"
    by (rule iteration_preserves[where P="\<lambda>s'. persisted (cache s') = storedValue (cache s')"])
       (auto simp: setters Let_def meanwhile_synced)
next
  fix s' :: run_state and c' assume "persisted (cache s') = storedValue (cache s')"
  then show "persisted (cache (setStatus (Stopped_by_user c') s')) = storedValue (cache (setStatus (Stopped_by_user c') s'))"
    by simp
qed

text \<open>
  The entry and the live status of a URL stay through the loop when the URL is not among
  the items from index \<open>i\<close> on and no outside action writes them.
\<close>

lemma loop_entry:
  assumes "u \<notin> webVideoUrl ` set (drop i work)"
    and "\<forall>j < length work. filter (caches_under u) (actions_of (env j)) = []"
  shows "storedValue (cache (loop env mp3Map k work i s)) u = storedValue (cache s) u"
proof (rule loop_invariant[where I="\<lambda>s'. storedValue (cache s') u = storedValue (cache s) u"])
  show "storedValue (cache s) u = storedValue (cache s) u" by simp
next
  fix j and s' :: run_state assume j: "i \<le> j" "j < length work"
    and u: "storedValue (cache s') u = storedValue (cache s) u"
  have "drop i work ! (j - i) = work ! j" using j by simp
  moreover have "j - i < length (drop i work)" using j by simp
  ultimately have "work ! j \<in> set (drop i work)" by (metis nth_mem)
  then have ne: "webVideoUrl (work ! j) \<noteq> u" using assms(1) by auto
  have q: "filter (caches_under u) (actions_of (env j)) = []" using assms(2) j by simp
  show "storedValue (cache (iteration env mp3Map k work j s')) u = storedValue (cache s) u"
    using u
  proof (rule iteration_preserves[where P="\<lambda>s'. storedValue (cache s') u = storedValue (cache s) u"])
    fix acts and s'' :: run_state assume "set acts \<subseteq> set (actions_of (env j))" "storedValue (cache s'') u = storedValue (cache s) u"
    then show "storedValue (cache (meanwhile acts s'')) u = storedValue (cache s) u"
      using filter_empty_subset[OF q, of acts] by (simp add: meanwhile_entry)
  qed (use ne in \<open>auto simp: setters Let_def\<close>)
next
  fix s' :: run_state and c' assume "storedValue (cache s') u = storedValue (cache s) u"
  then show "storedValue (cache (setStatus (Stopped_by_user c') s')) u = storedValue (cache s) u" by simp
qed

lemma run_cache:
  "cache (runTranscription env videos mp3Map k s)
     = cache (loop env mp3Map k (work_of videos mp3Map s) 0 (run_start s))"
  "transcriptStates (runTranscription env videos mp3Map k s)
     = transcriptStates (loop env mp3Map k (work_of videos mp3Map s) 0 (run_start s))"
  "filter (is_cache_write_for u) (trace (runTranscription env videos mp3Map k s))
     = filter (is_cache_write_for u) (trace (loop env mp3Map k (work_of videos mp3Map s) 0 (run_start s)))"
  "filter (is_error_for u) (trace (runTranscription env videos mp3Map k s))
     = filter (is_error_for u) (trace (loop env mp3Map k (work_of videos mp3Map s) 0 (run_start s)))"
  by (simp_all add: run_unfold Let_def)

lemma work_excludes_cached:
  "truthy_value (js_get (storedValue (cache s)) u) \<Longrightarrow> u \<notin> webVideoUrl ` set (work_of videos mp3Map s)"
  by (auto simp: work_of_def videosToTranscribe_def)

text \<open>
  Claim C3, as stated, fails. The work-set is computed with the truthiness of the cached
  transcript, so a URL that is present in the cache with the empty transcript is not
  excluded when it has an audio URL, and a successful run overwrites its entry, in the
  state and in the stored copy. The work-set is also computed from the state of the
  cache and not from the stored copy: a URL that only the stored copy holds is not
  excluded either, and its stored entry is overwritten.
\<close>

theorem empty_transcript_not_skipped:
  "work_of [example_video ''1'' ''v1''] (Map.empty(''v1'' \<mapsto> ''a.mp3''))
       (initial_run_state (Map.empty(''v1'' \<mapsto> [])))
     = [example_video ''1'' ''v1'']
   \<and> storedValue (cache (initial_run_state (Map.empty(''v1'' \<mapsto> [])))) ''v1'' = Some []
   \<and> storedValue (cache (runTranscription (\<lambda>i. ok_env ''hello'') [example_video ''1'' ''v1'']
         (Map.empty(''v1'' \<mapsto> ''a.mp3'')) ''key'' (initial_run_state (Map.empty(''v1'' \<mapsto> []))))) ''v1''
     = Some ''hello''
   \<and> persisted (cache (runTranscription (\<lambda>i. ok_env ''hello'') [example_video ''1'' ''v1'']
         (Map.empty(''v1'' \<mapsto> ''a.mp3'')) ''key'' (initial_run_state (Map.empty(''v1'' \<mapsto> []))))) ''v1''
     = Some ''hello''
   \<and> work_of [example_video ''1'' ''v1''] (Map.empty(''v1'' \<mapsto> ''a.mp3''))
       ((initial_run_state Map.empty)\<lparr>cache := \<lparr>storedValue = Map.empty, persisted = Map.empty(''v1'' \<mapsto> ''old'')\<rparr>\<rparr>)
     = [example_video ''1'' ''v1'']
   \<and> persisted (cache (runTranscription (\<lambda>i. ok_env ''hello'') [example_video ''1'' ''v1'']
         (Map.empty(''v1'' \<mapsto> ''a.mp3'')) ''key''
         ((initial_run_state Map.empty)\<lparr>cache := \<lparr>storedValue = Map.empty, persisted = Map.empty(''v1'' \<mapsto> ''old'')\<rparr>\<rparr>))) ''v1''
     = Some ''hello''"
  by (simp add: work_of_def run_eval ok_env_def ok_fetch transcribeAudioWithGemini_def object_prototype_names_def)

text \<open>
  Claim C3, amended. A run is one invocation of \<open>runTranscription\<close>. A URL whose
  transcript is looked up truthy in the state of the cache at the start of the run, as
  it is for every URL cached with a transcript that is not empty, is excluded from the
  work-set, also when it has an audio URL; the run itself publishes no cache write for
  it, and its entry is the same after the run when no other code writes the cache under
  it while the run is suspended. The cache is only appended to: no key of the state of
  the cache is removed, and when the stored copy is equal to the state at the start, as
  it is when the state was read from it, it is equal to the state after the run.
\<close>

theorem cached_items_skipped:
  "(truthy_value (js_get (storedValue (cache s)) u) \<longrightarrow>
        u \<notin> webVideoUrl ` set (work_of videos mp3Map s)
      \<and> filter (is_cache_write_for u) (trace (runTranscription env videos mp3Map k s)) = []
      \<and> ((\<forall>j < length (work_of videos mp3Map s). filter (caches_under u) (actions_of (env j)) = []) \<longrightarrow>
           storedValue (cache (runTranscription env videos mp3Map k s)) u = storedValue (cache s) u))
   \<and> dom (storedValue (cache s)) \<subseteq> dom (storedValue (cache (runTranscription env videos mp3Map k s)))
   \<and> (persisted (cache s) = storedValue (cache s) \<longrightarrow>
        persisted (cache (runTranscription env videos mp3Map k s))
          = storedValue (cache (runTranscription env videos mp3Map k s)))"
proof -
  let ?work = "work_of videos mp3Map s"
  let ?l = "loop env mp3Map k ?work 0 (run_start s)"
  have a: "truthy_value (js_get (storedValue (cache s)) u) \<longrightarrow>
        u \<notin> webVideoUrl ` set ?work
      \<and> filter (is_cache_write_for u) (trace (runTranscription env videos mp3Map k s)) = []
      \<and> ((\<forall>j < length ?work. filter (caches_under u) (actions_of (env j)) = []) \<longrightarrow>
           storedValue (cache (runTranscription env videos mp3Map k s)) u = storedValue (cache s) u)"
  proof
    assume "truthy_value (js_get (storedValue (cache s)) u)"
    then have w: "u \<notin> webVideoUrl ` set ?work"
      by (rule work_excludes_cached)
    then have d: "u \<notin> webVideoUrl ` set (drop 0 ?work)" by simp
    have t: "filter (is_cache_write_for u) (trace (runTranscription env videos mp3Map k s)) = []"
      using loop_own_trace[OF d, of env mp3Map k "run_start s"] by (simp add: run_cache)
    have e: "(\<forall>j < length ?work. filter (caches_under u) (actions_of (env j)) = []) \<longrightarrow>
           storedValue (cache (runTranscription env videos mp3Map k s)) u = storedValue (cache s) u"
      using loop_entry[OF d, where env=env and k=k and s="run_start s" and ?mp3Map=mp3Map] by (simp add: run_cache)
    from w t e show "u \<notin> webVideoUrl ` set ?work
      \<and> filter (is_cache_write_for u) (trace (runTranscription env videos mp3Map k s)) = []
      \<and> ((\<forall>j < length ?work. filter (caches_under u) (actions_of (env j)) = []) \<longrightarrow>
           storedValue (cache (runTranscription env videos mp3Map k s)) u = storedValue (cache s) u)"
      by blast
  qed
  have b: "dom (storedValue (cache s)) \<subseteq> dom (storedValue (cache (runTranscription env videos mp3Map k s)))"
    using loop_dom[of "storedValue (cache s)" "run_start s" env mp3Map k ?work 0] by (simp add: run_cache)
  have c: "persisted (cache s) = storedValue (cache s) \<longrightarrow>
        persisted (cache (runTranscription env videos mp3Map k s))
          = storedValue (cache (runTranscription env videos mp3Map k s))"
    using loop_synced[of "run_start s" env mp3Map k ?work 0] by (simp add: run_cache)
  show ?thesis
    by (intro conjI) (rule a b c)+
qed

theorem cached_items_skipped_witness:
  "truthy_value (js_get (storedValue (cache (initial_run_state (Map.empty(''v1'' \<mapsto> ''done''))))) ''v1'')
   \<and> ''v1'' \<notin> webVideoUrl ` set (work_of three_videos three_urls (initial_run_state (Map.empty(''v1'' \<mapsto> ''done''))))
   \<and> filter (is_cache_write_for ''v1'')
        (trace (runTranscription rerun_env three_videos three_urls ''key''
           (initial_run_state (Map.empty(''v1'' \<mapsto> ''done''))))) = []
   \<and> storedValue (cache (runTranscription rerun_env three_videos three_urls ''key''
           (initial_run_state (Map.empty(''v1'' \<mapsto> ''done''))))) ''v1'' = Some ''done''
   \<and> persisted (cache (runTranscription rerun_env three_videos three_urls ''key''
           (initial_run_state (Map.empty(''v1'' \<mapsto> ''done'')))))
     = storedValue (cache (runTranscription rerun_env three_videos three_urls ''key''
           (initial_run_state (Map.empty(''v1'' \<mapsto> ''done'')))))"
proof -
  let ?s = "initial_run_state (Map.empty(''v1'' \<mapsto> ''done''))"
  have h: "truthy_value (js_get (storedValue (cache ?s)) ''v1'')"
    by (simp add: initial_run_state_def js_get_def)
  have v: "storedValue (cache ?s) ''v1'' = Some ''done''"
    by (simp add: initial_run_state_def)
  have p: "persisted (cache ?s) = storedValue (cache ?s)"
    by (simp add: initial_run_state_def)
  have q: "\<forall>j < length (work_of three_videos three_urls ?s). filter (caches_under ''v1'') (actions_of (rerun_env j)) = []"
    by (simp add: actions_of_def rerun_env_def ok_env_def)
  note t = cached_items_skipped[of ?s "''v1''" three_videos three_urls rerun_env "''key''"]
  note t1 = mp[OF conjunct1[OF t] h]
  have a: "''v1'' \<notin> webVideoUrl ` set (work_of three_videos three_urls ?s)"
    using conjunct1[OF t1] .
  have b: "filter (is_cache_write_for ''v1'') (trace (runTranscription rerun_env three_videos three_urls ''key'' ?s)) = []"
    using conjunct1[OF conjunct2[OF t1]] .
  have c: "storedValue (cache (runTranscription rerun_env three_videos three_urls ''key'' ?s)) ''v1'' = Some ''done''"
    using mp[OF conjunct2[OF conjunct2[OF t1]] q] unfolding v .
  have d: "persisted (cache (runTranscription rerun_env three_videos three_urls ''key'' ?s))
     = storedValue (cache (runTranscription rerun_env three_videos three_urls ''key'' ?s))"
    using mp[OF conjunct2[OF conjunct2[OF t]] p] .
  show ?thesis
    by (intro conjI) (rule h a b c d)+
qed

lemma loop_step:
  "i < length work \<Longrightarrow> \<not> stopRequest s \<Longrightarrow>
   loop env mp3Map k work i s = loop env mp3Map k work (Suc i) (iteration env mp3Map k work i s)"
  by (subst loop.simps) simp

lemma iterate_own_trace:
  assumes "i \<le> m" and "\<forall>j. i \<le> j \<and> j < m \<longrightarrow> webVideoUrl (work ! j) \<noteq> u"
  shows "filter (is_cache_write_for u) (trace (iterate env mp3Map k work i m s)) = filter (is_cache_write_for u) (trace s)
    \<and> filter (is_error_for u) (trace (iterate env mp3Map k work i m s)) = filter (is_error_for u) (trace s)"
  using assms
proof (induction m rule: dec_induct)
  case base
  then show ?case by simp
next
  case (step n)
  then show ?case
    by (simp add: iterate_Suc iteration_cache_writes iteration_errors split: sum.splits)
qed

lemma process_item_success:
  assumes "attempt_result e k = Inr t"
  shows "holds_transcript (webVideoUrl video) t (process_item e mp3Map k i n video s)"
  using assms
  by (auto simp: holds_transcript_def process_item_def attempt_result_def Let_def setters
      split: sum.splits prod.splits)

lemma meanwhile_kept:
  assumes "\<forall>a \<in> set acts. \<not> touches u a" and "holds_transcript u t s"
  shows "holds_transcript u t (meanwhile acts s)"
  using assms
proof (induction acts arbitrary: s)
  case Nil
  then show ?case by simp
next
  case (Cons a acts)
  have "\<not> touches u a" using Cons.prems(1) by simp
  then have "holds_transcript u t (outside a s)"
    using Cons.prems(2)
    by (cases a) (auto simp: holds_transcript_def handleStopProcessing_def setValue_def Let_def)
  then show ?case using Cons.IH Cons.prems(1) by simp
qed

lemma iteration_kept:
  assumes "holds_transcript u t s" and "webVideoUrl (work ! i) \<noteq> u"
    and "filter (touches u) (actions_of (env i)) = []"
  shows "holds_transcript u t (iteration env mp3Map k work i s)"
  using assms(1)
proof (rule iteration_preserves[where P="holds_transcript u t"])
  fix acts and s' :: run_state
  assume "set acts \<subseteq> set (actions_of (env i))" "holds_transcript u t s'"
  then show "holds_transcript u t (meanwhile acts s')"
    using filter_empty_subset[OF assms(3), of acts] by (simp add: meanwhile_kept)
qed (use assms(2) in \<open>auto simp: holds_transcript_def setters Let_def\<close>)

lemma loop_kept:
  assumes "u \<notin> webVideoUrl ` set (drop i work)"
    and "\<forall>j < length work. filter (touches u) (actions_of (env j)) = []"
    and "holds_transcript u t s"
  shows "holds_transcript u t (loop env mp3Map k work i s)"
proof (rule loop_invariant[where I="holds_transcript u t"])
  show "holds_transcript u t s" by (rule assms(3))
next
  fix j and s' :: run_state assume j: "i \<le> j" "j < length work" and h: "holds_transcript u t s'"
  have "drop i work ! (j - i) = work ! j" using j by simp
  moreover have "j - i < length (drop i work)" using j by simp
  ultimately have "work ! j \<in> set (drop i work)" by (metis nth_mem)
  then have ne: "webVideoUrl (work ! j) \<noteq> u" using assms(1) by auto
  have q: "filter (touches u) (actions_of (env j)) = []" using assms(2) j by simp
  show "holds_transcript u t (iteration env mp3Map k work j s')"
    using h ne q by (rule iteration_kept)
next
  fix s' :: run_state and c' assume "holds_transcript u t s'"
  then show "holds_transcript u t (setStatus (Stopped_by_user c') s')"
    by (simp add: holds_transcript_def)
qed

lemma run_kept:
  "holds_transcript u t (runTranscription env videos mp3Map k s)
     = holds_transcript u t (loop env mp3Map k (work_of videos mp3Map s) 0 (run_start s))"
  by (simp add: holds_transcript_def run_cache)

text \<open>
  Claim C4, as stated, fails when two video records share a URL: both are in the work-set,
  and the second attempt works on the identity of the first. After the first has
  succeeded, a failure of the second sets the live status of the URL to error, and a
  success of the second replaces the cached transcript of the first.
\<close>

theorem duplicate_url_regresses:
  "attempt_result (flaky_env 0) ''key'' = Inr ''hello''
   \<and> filter (\<lambda>e. is_success e \<or> is_error_for ''v1'' e)
        (trace (runTranscription flaky_env twin_videos (Map.empty(''v1'' \<mapsto> ''a.mp3'')) ''key''
           (initial_run_state Map.empty)))
     = [SetTranscriptState ''v1'' \<lparr>state_status = St_success, state_text = Text_transcript ''hello''\<rparr>,
        SetTranscriptState ''v1'' \<lparr>state_status = St_error, state_text = Text_error (Msg cors_message)\<rparr>]
   \<and> transcriptStates (runTranscription flaky_env twin_videos (Map.empty(''v1'' \<mapsto> ''a.mp3'')) ''key''
           (initial_run_state Map.empty)) ''v1''
     = Some \<lparr>state_status = St_error, state_text = Text_error (Msg cors_message)\<rparr>
   \<and> attempt_result (changing_env 0) ''key'' = Inr ''hello''
   \<and> storedValue (cache (runTranscription changing_env twin_videos (Map.empty(''v1'' \<mapsto> ''a.mp3'')) ''key''
           (initial_run_state Map.empty))) ''v1''
     = Some ''world''"
  by (simp add: run_eval twin_videos_def flaky_env_def changing_env_def attempt_result_def
      ok_env_def down_env_def getBase64FromUrl_def transcribeAudioWithGemini_def COMMA_def
      object_prototype_names_def)

text \<open>
  Claim C4, amended. A run is one invocation of \<open>runTranscription\<close>; while it is
  suspended, other code of the component may write the shared state. In a run whose
  work-set has pairwise distinct URLs, for every item that the run reaches (the stop
  signal is clear at the tops of the iterations up to the item's) and whose transcription
  call succeeds: when the attempt ends, the URL of the item is in the cache and in its
  stored copy with exactly the transcript returned, and its live status is the success
  state with that transcript; the run writes the cache for this URL once, with that
  transcript, and publishes no error state for it. The entry and the live status are
  still these after the run when no other code writes the cache entry or the live status
  of the URL while the run is suspended.
\<close>

theorem success_is_cached:
  assumes "distinct (map webVideoUrl (work_of videos mp3Map s))"
    and "j < length (work_of videos mp3Map s)"
    and "\<forall>i \<le> j. \<not> stopRequest (at_top env videos mp3Map key s i)"
    and "attempt_result (env j) key = Inr t"
  shows "holds_transcript (webVideoUrl (work_of videos mp3Map s ! j)) t
           (before_delay env videos mp3Map key s j)
   \<and> filter (is_cache_write_for (webVideoUrl (work_of videos mp3Map s ! j)))
        (trace (runTranscription env videos mp3Map key s))
       = [SetTranscriptCache (webVideoUrl (work_of videos mp3Map s ! j)) t]
   \<and> filter (is_error_for (webVideoUrl (work_of videos mp3Map s ! j)))
        (trace (runTranscription env videos mp3Map key s)) = []
   \<and> ((\<forall>i < length (work_of videos mp3Map s).
          filter (touches (webVideoUrl (work_of videos mp3Map s ! j))) (actions_of (env i)) = []) \<longrightarrow>
        holds_transcript (webVideoUrl (work_of videos mp3Map s ! j)) t
          (runTranscription env videos mp3Map key s))"
proof -
  let ?work = "work_of videos mp3Map s"
  let ?u = "webVideoUrl (?work ! j)"
  let ?s0 = "run_start s"
  let ?A = "iterate env mp3Map key ?work 0 j ?s0"
  let ?bd = "before_delay env videos mp3Map key s j"
  let ?B = "iteration env mp3Map key ?work j ?A"
  let ?L = "loop env mp3Map key ?work (Suc j) ?B"
  let ?r = "runTranscription env videos mp3Map key s"
  have others: "\<And>j'. j' < length ?work \<Longrightarrow> j' \<noteq> j \<Longrightarrow> webVideoUrl (?work ! j') \<noteq> ?u"
    using assms(1,2) by (metis distinct_conv_nth length_map nth_map)
  have ns: "\<And>m. m \<le> j \<Longrightarrow> \<not> stopRequest (iterate env mp3Map key ?work 0 m ?s0)"
    using assms(3) by (simp add: at_top_def)
  have "loop env mp3Map key ?work 0 ?s0 = loop env mp3Map key ?work j ?A"
    using assms(2) ns by (intro loop_unroll) simp_all
  also have "\<dots> = ?L"
    using assms(2) ns[of j] by (simp add: loop_step)
  finally have l: "loop env mp3Map key ?work 0 ?s0 = ?L" .
  have bdB: "?B = inter_call_delay (env j) j (length ?work) ?bd"
    by (simp add: iteration_def before_delay_def at_top_def)
  have h: "holds_transcript ?u t ?bd"
    unfolding before_delay_def using assms(4) by (rule process_item_success)
  have A: "filter (is_cache_write_for ?u) (trace ?A) = []" "filter (is_error_for ?u) (trace ?A) = []"
    using iterate_own_trace[of 0 j ?work ?u env mp3Map key ?s0] others assms(2) by simp_all
  have B: "filter (is_cache_write_for ?u) (trace ?B) = [SetTranscriptCache ?u t]"
      "filter (is_error_for ?u) (trace ?B) = []"
    using assms(4) A by (simp_all add: iteration_errors iteration_cache_writes)
  have nd: "?u \<notin> webVideoUrl ` set (drop (Suc j) ?work)"
  proof
    assume "?u \<in> webVideoUrl ` set (drop (Suc j) ?work)"
    then obtain v where v: "v \<in> set (drop (Suc j) ?work)" "webVideoUrl v = ?u" by auto
    then obtain i where i: "i < length (drop (Suc j) ?work)" "drop (Suc j) ?work ! i = v"
      by (auto simp: in_set_conv_nth)
    then have "?work ! (Suc j + i) = v" "Suc j + i < length ?work" by auto
    with others[of "Suc j + i"] v show False by simp
  qed
  have w: "filter (is_cache_write_for ?u) (trace ?r) = [SetTranscriptCache ?u t]"
    and e: "filter (is_error_for ?u) (trace ?r) = []"
    unfolding run_cache l using loop_own_trace[OF nd, of env mp3Map key ?B] B by simp_all
  have c: "(\<forall>i < length ?work. filter (touches ?u) (actions_of (env i)) = []) \<longrightarrow> holds_transcript ?u t ?r"
  proof
    assume q: "\<forall>i < length ?work. filter (touches ?u) (actions_of (env i)) = []"
    then have qj: "filter (touches ?u) (actions_of (env j)) = []" using assms(2) by simp
    have "\<forall>a \<in> set (during_delay (env j)). \<not> touches ?u a"
      using filter_empty_subset[OF qj, of "during_delay (env j)"] by (auto simp: actions_of_def)
    then have "holds_transcript ?u t (meanwhile (during_delay (env j)) (publish (Delay API_CALL_DELAY_MS) ?bd))"
      using h by (intro meanwhile_kept) (simp_all add: holds_transcript_def publish_def)
    then have "holds_transcript ?u t ?B"
      unfolding bdB inter_call_delay_def using h by simp
    then have "holds_transcript ?u t ?L"
      using nd q by (intro loop_kept) simp_all
    then show "holds_transcript ?u t ?r"
      unfolding run_kept l .
  qed
  show ?thesis
    by (intro conjI) (rule h w e c)+
qed

lemma rerun_result: "attempt_result (rerun_env i) ''key'' = Inr ''hello''"
  by (simp add: attempt_result_def rerun_env_def ok_env_def ok_fetch transcribeAudioWithGemini_def)

lemma rerun_calm: "calm (rerun_env i)"
  by (simp add: calm_def rerun_env_def flag_after_def)

theorem success_is_cached_witness:
  "\<not> stopRequest (at_top rerun_env three_videos three_urls ''key'' (initial_run_state Map.empty) 0)
   \<and> \<not> stopRequest (at_top rerun_env three_videos three_urls ''key'' (initial_run_state Map.empty) 1)
   \<and> attempt_result (rerun_env 1) ''key'' = Inr ''hello''
   \<and> holds_transcript ''v2'' ''hello''
        (runTranscription rerun_env three_videos three_urls ''key'' (initial_run_state Map.empty))
   \<and> filter (is_cache_write_for ''v2'')
        (trace (runTranscription rerun_env three_videos three_urls ''key'' (initial_run_state Map.empty)))
       = [SetTranscriptCache ''v2'' ''hello'']
   \<and> filter (is_error_for ''v2'')
        (trace (runTranscription rerun_env three_videos three_urls ''key'' (initial_run_state Map.empty))) = []"
proof -
  let ?s = "initial_run_state Map.empty"
  let ?r = "runTranscription rerun_env three_videos three_urls ''key'' ?s"
  have h1: "distinct (map webVideoUrl (work_of three_videos three_urls ?s))"
    unfolding three_work by (simp add: three_videos_def example_video_def)
  have h2: "1 < length (work_of three_videos three_urls ?s)"
    unfolding three_work by (simp add: three_videos_def)
  have tops: "\<And>i. \<not> stopRequest (at_top rerun_env three_videos three_urls ''key'' ?s i)"
    unfolding at_top_def by (intro iterate_calm) (simp_all add: rerun_calm)
  then have h3: "\<forall>i \<le> 1. \<not> stopRequest (at_top rerun_env three_videos three_urls ''key'' ?s i)"
    by simp
  have u: "webVideoUrl (work_of three_videos three_urls ?s ! 1) = ''v2''"
    unfolding three_work by (simp add: three_videos_def example_video_def)
  have q: "\<forall>i < length (work_of three_videos three_urls ?s). filter (touches ''v2'') (actions_of (rerun_env i)) = []"
    by (simp add: actions_of_def rerun_env_def ok_env_def)
  note t = success_is_cached[OF h1 h2 h3 rerun_result, unfolded u]
  have a: "holds_transcript ''v2'' ''hello'' ?r"
    using mp[OF conjunct2[OF conjunct2[OF conjunct2[OF t]]] q] .
  have b: "filter (is_cache_write_for ''v2'') (trace ?r) = [SetTranscriptCache ''v2'' ''hello'']"
    using conjunct1[OF conjunct2[OF t]] .
  have c: "filter (is_error_for ''v2'') (trace ?r) = []"
    using conjunct1[OF conjunct2[OF conjunct2[OF t]]] .
  show ?thesis
    by (intro conjI) (rule tops rerun_result a b c)+
qed

end
